theory Spec2Isabelle
  imports Main "HOL-Library.AList"
begin

section \<open>The caching layer of the practice tracker\<close>

text \<open>
  This theory embeds the class \<open>CacheManager\<close> (the second module of
  \<^verbatim>\<open>src/utils/retry.ts\<close>): a memory tier (a JavaScript \<open>Map\<close> with a running
  byte total), a file tier (one JSON file per entry and one metadata document per
  namespace directory) and the operations \<open>get\<close>, \<open>set\<close>, \<open>invalidate\<close>,
  \<open>getCacheStatus\<close> and \<open>cleanup\<close>.

  What the runtime provides is made explicit:
  \<^item> \<open>Date.now()\<close> is an argument \<open>now\<close> of every operation (milliseconds, an
    integer); one operation reads one instant.
  \<^item> \<open>crypto.createHash('md5')\<close> is an argument \<open>digest\<close> of the functions that hash;
    every general theorem holds for every digest function.
  \<^item> An exception that leaves \<open>set\<close> is the value \<open>Inl e\<close> of its result (the state is
    then as it was); \<open>invalidate\<close> returns the exception, if any, beside the state it
    has reached.
  \<^item> The file system is part of the state. The one failure of the file system that is
    modelled is the write into a directory that does not exist; a full disk, missing
    permissions and the like are not.
  \<^item> A namespace is a plain directory name, so that \<open>path.join(cacheDir, namespace)\<close>
    is the sub-directory of that name.
  \<^item> A number is an integer that a double holds (timestamps, sizes and the \<open>ttl\<close> are;
    \<open>NaN\<close>, \<open>Infinity\<close>, fractions and \<open>undefined\<close> are outside the value universe),
    and the sums and differences that the cache computes are exact, as they are for
    integers of a magnitude below \<open>2 ^ 53\<close>.
\<close>

subsection \<open>JavaScript values\<close>

text \<open>
  The payloads are \<open>null\<close>, booleans, integral numbers, strings, arrays and plain
  objects. Arrays and objects have an identity: they live in a heap and are reached
  through references, so a value may be shared and may contain itself. A heap is the
  list of its objects, a reference is an index into it.
\<close>

datatype jsval = VNull | VBool bool | VNum int | VStr string | VRef nat

datatype jsobj = OArr "jsval list" | OObj "(string \<times> jsval) list"

type_synonym heap = "jsobj list"

text \<open>A payload handed to \<open>set\<close>: a heap and the value that is the root.\<close>

type_synonym payload = "heap \<times> jsval"

text \<open>
  A JSON document is a finite tree. It is what \<open>JSON.stringify\<close> writes and what
  \<open>JSON.parse\<close> reads back.
\<close>

datatype json =
  JNull | JBool bool | JNum int | JStr string | JArr "json list" | JObj "(string \<times> json) list"

datatype js_error = TypeError

subsection \<open>Strings of the runtime\<close>

text \<open>
  A \<open>string\<close> is the sequence of its code points, each below 256. \<open>byteLength\<close> is
  \<open>Buffer.byteLength(s, 'utf8')\<close>: one byte below 128, two bytes from 128 on.
\<close>

definition byteLength :: "string \<Rightarrow> int" where
  "byteLength s = int (length s) + int (length (filter (\<lambda>c. 128 \<le> (of_char c :: nat)) s))"

definition dquote :: char where
  "dquote = CHR 0x22"

definition newline :: char where
  "newline = CHR 0x0A"

text \<open>\<open>Array.prototype.join\<close>.\<close>

fun join :: "string \<Rightarrow> string list \<Rightarrow> string" where
  "join sep [] = []"
| "join sep [x] = x"
| "join sep (x # y # ys) = x @ sep @ join sep (y # ys)"

text \<open>\<open>String.prototype.startsWith\<close>.\<close>

definition startsWith :: "string \<Rightarrow> string \<Rightarrow> bool" where
  "startsWith s p = (take (length p) s = p)"

text \<open>The decimal digits of a natural number.\<close>

definition digit_char :: "nat \<Rightarrow> char" where
  "digit_char d = ''0123456789'' ! d"

fun show_nat :: "nat \<Rightarrow> string" where
  "show_nat n = (if n < 10 then [digit_char n] else show_nat (n div 10) @ [digit_char (n mod 10)])"

declare show_nat.simps [simp del]

text \<open>
  A number of the runtime is a double. \<open>toDouble\<close> is the double that the runtime has
  for a natural number: the number itself below \<open>2 ^ 53 = 9007199254740992\<close>, and
  above that the nearest number with 53 significant bits, a tie going to the even
  one. \<open>excessBits\<close> counts the bits beyond the 53.
\<close>

fun excessBits :: "nat \<Rightarrow> nat" where
  "excessBits v = (if v < 9007199254740992 then 0 else Suc (excessBits (v div 2)))"

declare excessBits.simps [simp del]

definition toDouble :: "nat \<Rightarrow> nat" where
  "toDouble v =
     (let e = excessBits v; q = v div 2 ^ e; r = v mod 2 ^ e
      in if 2 * r < 2 ^ e \<or> (2 * r = 2 ^ e \<and> even q) then q * 2 ^ e else (q + 1) * 2 ^ e)"

text \<open>
  \<open>Number::toString\<close> of the language definition, for a double \<open>w\<close> that is a natural
  number of \<open>n\<close> decimal digits: the digits \<open>s\<close> are the fewest such that \<open>s\<close> followed
  by zeros is read back as \<open>w\<close>, and among those the nearest to \<open>w\<close>, the even one in
  a tie. \<open>shortestDigits w n k\<close> tries \<open>k\<close> digits and more; its result is \<open>s\<close> with
  the number of digits of the number printed. Up to 21 digits are printed in full, a
  longer number with an exponent.
\<close>

function shortestDigits :: "nat \<Rightarrow> nat \<Rightarrow> nat \<Rightarrow> nat \<times> nat" where
  "shortestDigits w n k =
     (if n \<le> k then (w, n)
      else
        (let p = 10 ^ (n - k); lo = w div p; hi = lo + 1;
             below = (toDouble (lo * p) = w); above = (toDouble (hi * p) = w);
             up = (if hi = 10 ^ k then (1, n + 1) else (hi, n))
         in if below \<and> above
            then (if w - lo * p < hi * p - w \<or> (w - lo * p = hi * p - w \<and> even lo)
                  then (lo, n) else up)
            else if below then (lo, n)
            else if above then up
            else shortestDigits w n (Suc k)))"
  by pat_completeness auto
termination shortestDigits
  by (relation "measure (\<lambda>(w, n, k). n - k)") auto

declare shortestDigits.simps [simp del]

definition formatDigits :: "nat \<Rightarrow> nat \<Rightarrow> string" where
  "formatDigits s n =
     (let ds = show_nat s
      in if n \<le> 21 then ds @ replicate (n - length ds) CHR ''0''
         else (if length ds = 1 then ds else hd ds # CHR ''.'' # tl ds)
              @ ''e+'' @ show_nat (n - 1))"

text \<open>
  What \<open>JSON.stringify\<close> prints for an integer. Below \<open>2 ^ 53\<close> that is its decimal
  digits (every such integer is a double, and no shorter digits are read back as it).
  A double of \<open>2 ^ 1024\<close> and more is \<open>Infinity\<close>, which is printed as \<open>null\<close>.
\<close>

definition withSign :: "int \<Rightarrow> string \<Rightarrow> string" where
  "withSign i s = (if i < 0 then CHR ''-'' # s else s)"

definition show_int :: "int \<Rightarrow> string" where
  "show_int i =
     (let v = nat \<bar>i\<bar>
      in if v < 9007199254740992 then withSign i (show_nat v)
         else
           (let w = toDouble v
            in if 2 ^ 1024 \<le> w then ''null''
               else (case shortestDigits w (length (show_nat w)) 1 of
                       (s, n) \<Rightarrow> withSign i (formatDigits s n))))"

text \<open>
  The quoting of \<open>JSON.stringify\<close> for a string: the quote and the backslash are
  escaped, the control characters have their short or their \<open>\u00XX\<close> form.
\<close>

definition hex_char :: "nat \<Rightarrow> char" where
  "hex_char d = ''0123456789abcdef'' ! d"

definition escape_char :: "char \<Rightarrow> string" where
  "escape_char c =
     (let n = (of_char c :: nat) in
      if c = dquote then [CHR 0x5C, dquote]
      else if c = CHR 0x5C then [CHR 0x5C, CHR 0x5C]
      else if n = 8 then [CHR 0x5C, CHR ''b'']
      else if n = 9 then [CHR 0x5C, CHR ''t'']
      else if n = 10 then [CHR 0x5C, CHR ''n'']
      else if n = 12 then [CHR 0x5C, CHR ''f'']
      else if n = 13 then [CHR 0x5C, CHR ''r'']
      else if n < 32 then [CHR 0x5C, CHR ''u'', CHR ''0'', CHR ''0'', hex_char (n div 16), hex_char (n mod 16)]
      else [c])"

definition quote :: "string \<Rightarrow> string" where
  "quote s = dquote # concat (map escape_char s) @ [dquote]"

text \<open>
  \<open>JSON.stringify\<close> of a document, without indentation (its one-argument form) and
  with the indentation of \<open>JSON.stringify(value, null, 2)\<close>; \<open>ind\<close> is the
  indentation of the enclosing line.
\<close>

fun stringify :: "json \<Rightarrow> string" where
  "stringify JNull = ''null''"
| "stringify (JBool b) = (if b then ''true'' else ''false'')"
| "stringify (JNum n) = show_int n"
| "stringify (JStr s) = quote s"
| "stringify (JArr items) = ''['' @ join '','' (map stringify items) @ '']''"
| "stringify (JObj props) =
     ''{'' @ join '','' (map (\<lambda>p. quote (fst p) @ '':'' @ stringify (snd p)) props) @ ''}''"

fun stringify2 :: "nat \<Rightarrow> json \<Rightarrow> string" where
  "stringify2 ind JNull = ''null''"
| "stringify2 ind (JBool b) = (if b then ''true'' else ''false'')"
| "stringify2 ind (JNum n) = show_int n"
| "stringify2 ind (JStr s) = quote s"
| "stringify2 ind (JArr items) =
     (if items = [] then ''[]''
      else ''['' @ [newline]
        @ join ('','' @ [newline])
            (map (\<lambda>x. replicate (ind + 2) CHR '' '' @ stringify2 (ind + 2) x) items)
        @ [newline] @ replicate ind CHR '' '' @ '']'')"
| "stringify2 ind (JObj props) =
     (if props = [] then ''{}''
      else ''{'' @ [newline]
        @ join ('','' @ [newline])
            (map (\<lambda>p. replicate (ind + 2) CHR '' '' @ quote (fst p) @ '': ''
                       @ stringify2 (ind + 2) (snd p)) props)
        @ [newline] @ replicate ind CHR '' '' @ ''}'')"

subsection \<open>Fingerprints: \<open>safeStringify\<close>\<close>

text \<open>
  \<open>safeStringify(obj, visited)\<close>. A primitive is printed by \<open>JSON.stringify\<close>. An
  object that is in \<open>visited\<close> (it is being walked further up) gives the marker; any
  other object is added to \<open>visited\<close> for the walk of its members and taken out again
  afterwards, which the model does by handing the enlarged set down only. The keys of an
  object are printed between quotes as they are. Nothing in the value universe makes the
  \<open>try\<close> block throw, so its \<open>catch\<close> has no branch here. A reference outside the
  heap does not occur in JavaScript; the model prints it as \<open>null\<close>.

  The recursion follows references, so it is not structural: each call on an object not
  yet visited leaves one object fewer to visit.
\<close>

lemma unvisited_less:
  "a \<notin> visited \<Longrightarrow> a < n \<Longrightarrow> card ({..<n} - insert a visited) < card ({..<n::nat} - visited)"
  by (rule psubset_card_mono) auto

function safeStringify :: "heap \<Rightarrow> nat set \<Rightarrow> jsval \<Rightarrow> string" where
  "safeStringify h visited VNull = stringify JNull"
| "safeStringify h visited (VBool b) = stringify (JBool b)"
| "safeStringify h visited (VNum n) = stringify (JNum n)"
| "safeStringify h visited (VStr s) = stringify (JStr s)"
| "safeStringify h visited (VRef a) =
     (if a \<in> visited then dquote # ''[Circular]'' @ [dquote]
      else if length h \<le> a then stringify JNull
      else (case h ! a of
          OArr items \<Rightarrow>
            ''['' @ join '','' (map (safeStringify h (insert a visited)) items) @ '']''
        | OObj props \<Rightarrow>
            ''{'' @ join '','' (map (\<lambda>p. [dquote] @ fst p @ [dquote] @ '':''
                                       @ safeStringify h (insert a visited) (snd p)) props)
              @ ''}''))"
  by pat_completeness auto
termination safeStringify
proof (relation "measure (\<lambda>(h, visited, v). card ({..<length h} - visited))", goal_cases)
  case 1
  show ?case by simp
next
  case (2 h visited a items x)
  then show ?case
    using unvisited_less [of a visited "length h"] by (simp del: card_Diff_insert)
next
  case (3 h visited a props p)
  then show ?case
    using unvisited_less [of a visited "length h"] by (simp del: card_Diff_insert)
qed

subsection \<open>The traversal of \<open>JSON.stringify\<close>\<close>

text \<open>
  \<open>JSON.stringify\<close> walks a value with the stack of the objects it is inside of and
  throws a \<open>TypeError\<close> (converting a circular structure) when it meets one of them
  again; otherwise it writes the tree the value unfolds to. \<open>jsonTree\<close> is that walk,
  and the text written is \<open>stringify\<close> or \<open>stringify2\<close> of the tree.
\<close>

fun collect :: "(js_error + 'a) list \<Rightarrow> js_error + 'a list" where
  "collect [] = Inr []"
| "collect (x # xs) =
     (case x of
        Inl e \<Rightarrow> Inl e
      | Inr v \<Rightarrow> (case collect xs of Inl e \<Rightarrow> Inl e | Inr vs \<Rightarrow> Inr (v # vs)))"

function jsonTree :: "heap \<Rightarrow> nat set \<Rightarrow> jsval \<Rightarrow> js_error + json" where
  "jsonTree h stack VNull = Inr JNull"
| "jsonTree h stack (VBool b) = Inr (JBool b)"
| "jsonTree h stack (VNum n) = Inr (JNum n)"
| "jsonTree h stack (VStr s) = Inr (JStr s)"
| "jsonTree h stack (VRef a) =
     (if a \<in> stack then Inl TypeError
      else if length h \<le> a then Inr JNull
      else (case h ! a of
          OArr items \<Rightarrow>
            (case collect (map (jsonTree h (insert a stack)) items) of
               Inl e \<Rightarrow> Inl e
             | Inr ts \<Rightarrow> Inr (JArr ts))
        | OObj props \<Rightarrow>
            (case collect (map (\<lambda>p. case jsonTree h (insert a stack) (snd p) of
                                       Inl e \<Rightarrow> Inl e
                                     | Inr t \<Rightarrow> Inr (fst p, t)) props) of
               Inl e \<Rightarrow> Inl e
             | Inr ps \<Rightarrow> Inr (JObj ps))))"
  by pat_completeness auto
termination jsonTree
proof (relation "measure (\<lambda>(h, stack, v). card ({..<length h} - stack))", goal_cases)
  case 1
  show ?case by simp
next
  case (2 h stack a items x)
  then show ?case
    using unvisited_less [of a stack "length h"] by (simp del: card_Diff_insert)
next
  case (3 h stack a props p)
  then show ?case
    using unvisited_less [of a stack "length h"] by (simp del: card_Diff_insert)
qed

subsection \<open>Entries, metadata records and the state\<close>

text \<open>
  \<open>CacheEntry\<close> and \<open>CacheMetadata\<close>, field by field (\<open>entry_size\<close> is the field
  \<open>size\<close>; the fields of a metadata record carry the prefix \<open>meta\<close> where an entry
  has a field of the same name). The payload of a stored entry is kept as the tree it
  unfolds to: \<open>set\<close> stores nothing when the payload has no such tree.
\<close>

record CacheEntry =
  data :: json
  timestamp :: int
  ttl :: int
  entry_size :: int
  key :: string

record CacheMetadata =
  meta_key :: string
  meta_timestamp :: int
  meta_ttl :: int
  meta_size :: int
  fingerprint :: string
  accessed :: int

text \<open>
  A file of the file tier is kept as what \<open>JSON.parse\<close> makes of it: the text of an
  entry file either parses to an entry or does not parse, and likewise the metadata
  document. A file that parses has the text \<open>JSON.stringify(value, null, 2)\<close>, the only
  form the cache writes, and it has the shape the cache writes: an entry, or a mapping
  from keys to metadata records. The entry file of a key is \<^verbatim>\<open><key>.json\<close>; since a key holds
  an underscore it is never \<^verbatim>\<open>metadata.json\<close>, and a directory is modelled as its
  entry files by key together with its metadata document.
\<close>

datatype entry_file = EntryFile CacheEntry | CorruptEntryFile

datatype metadata_file = MetadataFile "(string \<times> CacheMetadata) list" | CorruptMetadataFile

record directory =
  entry_files :: "string \<rightharpoonup> entry_file"
  metadata_json :: "metadata_file option"

text \<open>
  The state of the one \<open>CacheManager\<close>. \<open>cacheDir\<close> is the cache directory with its
  content: the sub-directory of each namespace, by name (\<open>path.join(cacheDir, namespace)\<close>
  for a namespace that is a plain directory name). \<open>memoryCache\<close> is the \<open>Map\<close>, in
  insertion order, which is the order its iterators and the stable sort see.
\<close>

record CacheManager =
  cacheDir :: "string \<rightharpoonup> directory"
  memoryCache :: "(string \<times> CacheEntry) list"
  currentMemorySize :: int

definition maxMemorySize :: int where
  "maxMemorySize = 100 * 1024 * 1024"

definition emptyDirectory :: directory where
  "emptyDirectory = \<lparr>entry_files = Map.empty, metadata_json = None\<rparr>"

definition knownNamespaces :: "string list" where
  "knownNamespaces = [''grind75'', ''leetcode'', ''companies'']"

text \<open>\<open>ensureCacheDirectory\<close>: every sub-directory that is missing is created empty.\<close>

definition ensureCacheDirectory :: "(string \<rightharpoonup> directory) \<Rightarrow> (string \<rightharpoonup> directory)" where
  "ensureCacheDirectory disk =
     fold (\<lambda>dir d. if d dir = None then d(dir \<mapsto> emptyDirectory) else d) knownNamespaces disk"

text \<open>The constructor, on the content \<open>disk\<close> of the cache directory at start.\<close>

definition newCacheManager :: "(string \<rightharpoonup> directory) \<Rightarrow> CacheManager" where
  "newCacheManager disk =
     \<lparr>cacheDir = ensureCacheDirectory disk, memoryCache = [], currentMemorySize = 0\<rparr>"

subsection \<open>Keys, fingerprints, file texts\<close>

definition generateKey :: "(string \<Rightarrow> string) \<Rightarrow> string \<Rightarrow> string \<Rightarrow> string" where
  "generateKey digest namespace identifier = namespace @ ''_'' @ digest identifier"

definition generateFingerprint :: "(string \<Rightarrow> string) \<Rightarrow> payload \<Rightarrow> string" where
  "generateFingerprint digest d = digest (safeStringify (fst d) {} (snd d))"

text \<open>The object \<open>{data, timestamp, ttl, size, key}\<close> as \<open>JSON.stringify\<close> sees it.\<close>

definition entryJson :: "CacheEntry \<Rightarrow> json" where
  "entryJson e =
     JObj [(''data'', data e), (''timestamp'', JNum (timestamp e)), (''ttl'', JNum (ttl e)),
           (''size'', JNum (entry_size e)), (''key'', JStr (key e))]"

definition entryContent :: "CacheEntry \<Rightarrow> string" where
  "entryContent e = stringify2 0 (entryJson e)"

subsection \<open>The metadata document\<close>

text \<open>The document of a namespace as it is on disk, if any.\<close>

definition metadataDocument :: "CacheManager \<Rightarrow> string \<Rightarrow> metadata_file option" where
  "metadataDocument st namespace =
     (case cacheDir st namespace of None \<Rightarrow> None | Some d \<Rightarrow> metadata_json d)"

text \<open>
  \<open>loadMetadata\<close>: the empty mapping when the file does not exist, and, through the
  \<open>catch\<close>, when it does not parse.
\<close>

definition loadMetadata :: "string \<Rightarrow> CacheManager \<Rightarrow> (string \<times> CacheMetadata) list" where
  "loadMetadata namespace st =
     (case metadataDocument st namespace of
        None \<Rightarrow> []
      | Some CorruptMetadataFile \<Rightarrow> []
      | Some (MetadataFile metadata) \<Rightarrow> metadata)"

text \<open>
  \<open>saveMetadata\<close>: \<open>writeFileSync\<close> fails when the directory of the namespace does not
  exist; the failure is caught and logged.
\<close>

definition saveMetadata :: "string \<Rightarrow> (string \<times> CacheMetadata) list \<Rightarrow> CacheManager \<Rightarrow> CacheManager" where
  "saveMetadata namespace metadata st =
     (case cacheDir st namespace of
        None \<Rightarrow> st
      | Some d \<Rightarrow>
          st\<lparr>cacheDir := (cacheDir st)(namespace \<mapsto> d\<lparr>metadata_json := Some (MetadataFile metadata)\<rparr>)\<rparr>)"

subsection \<open>Expiration and eviction\<close>

definition isExpired :: "int \<Rightarrow> int \<Rightarrow> int \<Rightarrow> bool" where
  "isExpired now ts d = (now - ts > d)"

text \<open>
  \<open>evictMemoryCache\<close>: the entries of the map, sorted by timestamp (the sort of the
  runtime is stable), are removed from the front while the running total is above
  \<open>maxMemorySize * 0.8\<close>. The running total is an integer and \<open>maxMemorySize * 0.8\<close> is
  exactly 83886080, so the test is the integer test \<open>10 * total > 8 * maxMemorySize\<close>.
\<close>

fun evictLoop :: "(string \<times> CacheEntry) list \<Rightarrow> CacheManager \<Rightarrow> CacheManager" where
  "evictLoop [] st = st"
| "evictLoop ((k, entry) # entries) st =
     (if 10 * currentMemorySize st > 8 * maxMemorySize
      then evictLoop entries
             (st\<lparr>memoryCache := AList.delete k (memoryCache st),
                 currentMemorySize := currentMemorySize st - entry_size entry\<rparr>)
      else st)"

definition evictMemoryCache :: "CacheManager \<Rightarrow> CacheManager" where
  "evictMemoryCache st = evictLoop (sort_key (\<lambda>p. timestamp (snd p)) (memoryCache st)) st"

text \<open>
  The insertion into the memory tier, the same three statements in \<open>set\<close> (lines
  327 to 332) and in \<open>get\<close> (lines 256 to 261): \<open>memoryCache.set(key, entry)\<close>, the
  addition of the size, and the eviction when the total is above \<open>maxMemorySize\<close>.
\<close>

definition memoryInsert :: "string \<Rightarrow> CacheEntry \<Rightarrow> CacheManager \<Rightarrow> CacheManager" where
  "memoryInsert k entry st =
     (let st1 = st\<lparr>memoryCache := AList.update k entry (memoryCache st),
                    currentMemorySize := currentMemorySize st + entry_size entry\<rparr>
      in if currentMemorySize st1 > maxMemorySize then evictMemoryCache st1 else st1)"

subsection \<open>Files of the file tier\<close>

definition readEntryFile :: "string \<Rightarrow> string \<Rightarrow> CacheManager \<Rightarrow> entry_file option" where
  "readEntryFile namespace k st =
     (case cacheDir st namespace of None \<Rightarrow> None | Some d \<Rightarrow> entry_files d k)"

text \<open>\<open>fs.unlinkSync\<close> of an entry file that exists.\<close>

definition unlinkEntryFile :: "string \<Rightarrow> string \<Rightarrow> CacheManager \<Rightarrow> CacheManager" where
  "unlinkEntryFile namespace k st =
     (case cacheDir st namespace of
        None \<Rightarrow> st
      | Some d \<Rightarrow>
          st\<lparr>cacheDir := (cacheDir st)(namespace \<mapsto> d\<lparr>entry_files := (entry_files d)(k := None)\<rparr>)\<rparr>)"

subsection \<open>\<open>get\<close>\<close>

text \<open>
  The second half of \<open>get\<close> (lines 246 to 283), the file tier. A file that does not
  parse throws inside the \<open>try\<close> and ends in the miss. A fresh or accepted entry is
  put into the memory tier with the byte length of the file as its size, and the
  metadata record of the key, if there is one, gets the access time. An expired entry
  has its file removed.
\<close>

definition getFromFile :: "string \<Rightarrow> string \<Rightarrow> bool \<Rightarrow> int \<Rightarrow> CacheManager \<Rightarrow> json option \<times> CacheManager" where
  "getFromFile namespace k acceptExpired now st =
     (case readEntryFile namespace k st of
        None \<Rightarrow> (None, st)
      | Some CorruptEntryFile \<Rightarrow> (None, st)
      | Some (EntryFile entry) \<Rightarrow>
          if \<not> isExpired now (timestamp entry) (ttl entry) \<or> acceptExpired
          then
            (let size = byteLength (entryContent entry);
                 st1 = memoryInsert k (entry\<lparr>entry_size := size\<rparr>) st;
                 metadata = loadMetadata namespace st1;
                 st2 = (case map_of metadata k of
                          None \<Rightarrow> st1
                        | Some m \<Rightarrow>
                            saveMetadata namespace
                              (AList.update k (m\<lparr>accessed := now\<rparr>) metadata) st1)
             in (Some (data entry), st2))
          else (None, unlinkEntryFile namespace k st))"

text \<open>
  \<open>get\<close>; \<open>None\<close> is the \<open>null\<close> of a miss. The memory tier comes first; its expired
  entry is deleted and its size subtracted before the file tier is asked.
\<close>

definition get :: "(string \<Rightarrow> string) \<Rightarrow> string \<Rightarrow> string \<Rightarrow> bool \<Rightarrow> int \<Rightarrow> CacheManager \<Rightarrow> json option \<times> CacheManager" where
  "get digest namespace identifier acceptExpired now st =
     (let k = generateKey digest namespace identifier in
      case map_of (memoryCache st) k of
        None \<Rightarrow> getFromFile namespace k acceptExpired now st
      | Some memoryEntry \<Rightarrow>
          if \<not> isExpired now (timestamp memoryEntry) (ttl memoryEntry) \<or> acceptExpired
          then (Some (data memoryEntry), st)
          else getFromFile namespace k acceptExpired now
                 (st\<lparr>memoryCache := AList.delete k (memoryCache st),
                     currentMemorySize := currentMemorySize st - entry_size memoryEntry\<rparr>))"

subsection \<open>\<open>set\<close>\<close>

definition defaultTtl :: int where
  "defaultTtl = 24 * 60 * 60 * 1000"

text \<open>\<open>options.ttl || 24 * 60 * 60 * 1000\<close>: an absent and a zero \<open>ttl\<close> are falsy.\<close>

definition effectiveTtl :: "int option \<Rightarrow> int" where
  "effectiveTtl ttlOption =
     (case ttlOption of None \<Rightarrow> defaultTtl | Some t \<Rightarrow> if t = 0 then defaultTtl else t)"

text \<open>
  The \<open>try\<close> block of \<open>set\<close> (lines 309 to 337), for the entry as it was printed
  (its field \<open>size\<close> still 0), the byte length \<open>bytes\<close> of that text and the
  fingerprint. \<open>writeFileSync\<close> fails when the directory of the namespace does not
  exist; the \<open>catch\<close> logs that, and nothing is stored. Otherwise the file is written,
  the metadata record of the key is replaced, the document is saved, and the entry, now
  with its size, is put into the memory tier.
\<close>

definition storeEntry :: "string \<Rightarrow> string \<Rightarrow> CacheEntry \<Rightarrow> int \<Rightarrow> string \<Rightarrow> int \<Rightarrow> CacheManager \<Rightarrow> CacheManager" where
  "storeEntry namespace k entry bytes fp now st =
     (case cacheDir st namespace of
        None \<Rightarrow> st
      | Some dir \<Rightarrow>
          (let st1 = st\<lparr>cacheDir := (cacheDir st)(namespace \<mapsto>
                            dir\<lparr>entry_files := (entry_files dir)(k \<mapsto> EntryFile entry)\<rparr>)\<rparr>;
               metadata = loadMetadata namespace st1;
               st2 = saveMetadata namespace
                       (AList.update k
                          \<lparr>meta_key = k, meta_timestamp = now, meta_ttl = ttl entry,
                           meta_size = bytes, fingerprint = fp, accessed = now\<rparr> metadata) st1
           in memoryInsert k (entry\<lparr>entry_size := bytes\<rparr>) st2))"

text \<open>
  \<open>set\<close>. The fingerprint and the text of the entry are computed before the \<open>try\<close>:
  \<open>JSON.stringify(entry, null, 2)\<close> throws on a circular payload, and that exception
  leaves \<open>set\<close>.
\<close>

definition set_cache :: "(string \<Rightarrow> string) \<Rightarrow> string \<Rightarrow> string \<Rightarrow> payload \<Rightarrow> int option \<Rightarrow> int \<Rightarrow> CacheManager \<Rightarrow> js_error + CacheManager" where
  "set_cache digest namespace identifier d ttlOption now st =
     (let k = generateKey digest namespace identifier;
          t = effectiveTtl ttlOption;
          fp = generateFingerprint digest d
      in case jsonTree (fst d) {} (snd d) of
        Inl e \<Rightarrow> Inl e
      | Inr tree \<Rightarrow>
          (let entry = \<lparr>data = tree, timestamp = now, ttl = t, entry_size = 0, key = k\<rparr>;
               size = byteLength (entryContent entry)
           in Inr (storeEntry namespace k entry size fp now st)))"

subsection \<open>\<open>invalidate\<close>\<close>

text \<open>
  The loop of the namespace branch (lines 369 to 373). It iterates over the keys of the
  map and destructures each key with the pattern \<open>[key]\<close>: the variable \<open>key\<close> is the
  first character of the key (\<open>undefined\<close> for an empty key, on which \<open>startsWith\<close>
  throws). That one-character string is tested against the namespace and is what
  \<open>memoryCache.delete\<close> is called with. The result is the exception, if one was thrown,
  and the state reached.
\<close>

fun purgeLoop :: "string \<Rightarrow> string list \<Rightarrow> CacheManager \<Rightarrow> js_error option \<times> CacheManager" where
  "purgeLoop namespace [] st = (None, st)"
| "purgeLoop namespace (k # ks) st =
     (case k of
        [] \<Rightarrow> (Some TypeError, st)
      | c # rest \<Rightarrow>
          purgeLoop namespace ks
            (if startsWith [c] namespace
             then st\<lparr>memoryCache := AList.delete [c] (memoryCache st)\<rparr>
             else st))"

text \<open>
  \<open>invalidate\<close>. An identifier that is absent or the empty string is falsy and selects
  the namespace branch. Neither branch touches \<open>currentMemorySize\<close>.
\<close>

definition invalidate :: "(string \<Rightarrow> string) \<Rightarrow> string \<Rightarrow> string option \<Rightarrow> CacheManager \<Rightarrow> js_error option \<times> CacheManager" where
  "invalidate digest namespace identifier st =
     (if identifier \<noteq> None \<and> identifier \<noteq> Some []
      then
        (let k = generateKey digest namespace (the identifier);
             st1 = st\<lparr>memoryCache := AList.delete k (memoryCache st)\<rparr>;
             st2 = (if readEntryFile namespace k st1 \<noteq> None
                    then unlinkEntryFile namespace k st1 else st1);
             metadata = loadMetadata namespace st2
         in (None, saveMetadata namespace (AList.delete k metadata) st2))
      else
        (let st1 = (if cacheDir st namespace \<noteq> None
                    then st\<lparr>cacheDir := (cacheDir st)(namespace \<mapsto> emptyDirectory)\<rparr>
                    else st)
         in purgeLoop namespace (map fst (memoryCache st1)) st1))"

subsection \<open>\<open>getCacheStatus\<close>\<close>

record NamespaceCacheStatus =
  totalEntries :: nat
  validEntries :: nat
  totalSize :: int
  oldestEntry :: "int option"
  newestEntry :: "int option"

record CacheStatusReport =
  memoryEntries :: nat
  memorySize :: int
  memoryMaxSize :: int
  fileCache :: "(string \<times> NamespaceCacheStatus) list"

definition namespaceStatus :: "string \<Rightarrow> int \<Rightarrow> CacheManager \<Rightarrow> NamespaceCacheStatus" where
  "namespaceStatus ns now st =
     (let entries = map snd (loadMetadata ns st) in
      \<lparr>totalEntries = length entries,
       validEntries = length (filter (\<lambda>entry. \<not> isExpired now (meta_timestamp entry) (meta_ttl entry)) entries),
       totalSize = fold (\<lambda>entry sum. sum + meta_size entry) entries 0,
       oldestEntry = (case map meta_timestamp entries of [] \<Rightarrow> None | t # ts \<Rightarrow> Some (fold min ts t)),
       newestEntry = (case map meta_timestamp entries of [] \<Rightarrow> None | t # ts \<Rightarrow> Some (fold max ts t))\<rparr>)"

definition getCacheStatus :: "string option \<Rightarrow> int \<Rightarrow> CacheManager \<Rightarrow> CacheStatusReport" where
  "getCacheStatus namespace now st =
     (let namespaces = (if namespace \<noteq> None \<and> namespace \<noteq> Some [] then [the namespace]
                        else knownNamespaces)
      in \<lparr>memoryEntries = length (memoryCache st),
          memorySize = currentMemorySize st,
          memoryMaxSize = maxMemorySize,
          fileCache = fold (\<lambda>ns report. AList.update ns (namespaceStatus ns now st) report)
                        namespaces []\<rparr>)"

subsection \<open>\<open>cleanup\<close>\<close>

text \<open>
  The inner loop of \<open>cleanup\<close> over the records of one namespace, with the mapping
  \<open>updated\<close>, the counter \<open>removedCount\<close> and the state; then the body of the outer
  loop, which rewrites the document only when a record was removed.
\<close>

fun cleanupLoop :: "string \<Rightarrow> int \<Rightarrow> (string \<times> CacheMetadata) list \<Rightarrow> (string \<times> CacheMetadata) list \<Rightarrow> nat \<Rightarrow> CacheManager \<Rightarrow> (string \<times> CacheMetadata) list \<times> nat \<times> CacheManager" where
  "cleanupLoop namespace now [] updated removedCount st = (updated, removedCount, st)"
| "cleanupLoop namespace now ((k, entry) # rest) updated removedCount st =
     (if isExpired now (meta_timestamp entry) (meta_ttl entry)
      then cleanupLoop namespace now rest updated (removedCount + 1)
             (if readEntryFile namespace k st \<noteq> None then unlinkEntryFile namespace k st else st)
      else cleanupLoop namespace now rest (AList.update k entry updated) removedCount st)"

definition cleanupNamespace :: "int \<Rightarrow> string \<Rightarrow> CacheManager \<Rightarrow> CacheManager" where
  "cleanupNamespace now namespace st =
     (case cleanupLoop namespace now (loadMetadata namespace st) [] 0 st of
        (updated, removedCount, st1) \<Rightarrow>
          if removedCount > 0 then saveMetadata namespace updated st1 else st1)"

definition cleanup :: "int \<Rightarrow> CacheManager \<Rightarrow> CacheManager" where
  "cleanup now st = fold (cleanupNamespace now) knownNamespaces st"

subsection \<open>Notions used by the properties\<close>

text \<open>The sum of the sizes of a list of entries of the memory tier.\<close>

definition sizes :: "(string \<times> CacheEntry) list \<Rightarrow> int" where
  "sizes es = sum_list (map (\<lambda>p. entry_size (snd p)) es)"

text \<open>
  What holds of the memory tier between operations: the keys of the map are distinct
  (it is a map), no size is negative, and the running total is at most \<open>maxMemorySize\<close>.
\<close>

definition memoryInvariant :: "CacheManager \<Rightarrow> bool" where
  "memoryInvariant st \<longleftrightarrow>
     distinct (map fst (memoryCache st))
     \<and> (\<forall>p\<in>set (memoryCache st). 0 \<le> entry_size (snd p))
     \<and> currentMemorySize st \<le> maxMemorySize"

text \<open>
  A call of \<open>set\<close> or of \<open>get\<close>, and the state after it; a \<open>set\<close> that raises leaves
  the state as it was.
\<close>

datatype operation =
  SetOp string string payload "int option" int
| GetOp string string bool int

fun perform :: "(string \<Rightarrow> string) \<Rightarrow> operation \<Rightarrow> CacheManager \<Rightarrow> CacheManager" where
  "perform digest (SetOp namespace identifier d ttlOption now) st =
     (case set_cache digest namespace identifier d ttlOption now st of
        Inl e \<Rightarrow> st
      | Inr st' \<Rightarrow> st')"
| "perform digest (GetOp namespace identifier acceptExpired now) st =
     snd (get digest namespace identifier acceptExpired now st)"

text \<open>
  An object that contains itself: \<^verbatim>\<open>const a = {}; a.self = a\<close>, and the payload
  \<^verbatim>\<open>{value: 42}\<close>.
\<close>

definition selfContaining :: payload where
  "selfContaining = ([OObj [(''self'', VRef 0)]], VRef 0)"

text \<open>An object that contains itself further down: \<^verbatim>\<open>const b = {items: []}; b.items.push({parent: b})\<close>.\<close>

definition containedBelow :: payload where
  "containedBelow =
     ([OObj [(''items'', VRef 1)], OArr [VRef 2], OObj [(''parent'', VRef 0)]], VRef 0)"

definition value42 :: payload where
  "value42 = ([OObj [(''value'', VNum 42)]], VRef 0)"

text \<open>
  The digest function of the examples: it agrees with MD5 on the strings they hash, the
  identifier \<^verbatim>\<open>key-a\<close> and the text \<^verbatim>\<open>{"value":42}\<close>.
\<close>

definition md5Examples :: "string \<Rightarrow> string" where
  "md5Examples s =
     (if s = ''key-a'' then ''eabf43b1d263e7594d24748dddc4ffd8''
      else if s = ''{'' @ [CHR 0x22] @ ''value'' @ [CHR 0x22] @ '':42}''
        then ''0ddc4b47c822a930dfbb69febdcfe476''
      else ''d41d8cd98f00b204e9800998ecf8427e'')"

text \<open>The key of \<^verbatim>\<open>key-a\<close> in the namespace \<^verbatim>\<open>grind75\<close>, and the start on an empty disk.\<close>

definition keyA :: string where
  "keyA = ''grind75_eabf43b1d263e7594d24748dddc4ffd8''"

definition freshStart :: CacheManager where
  "freshStart = newCacheManager Map.empty"

text \<open>
  Whether the two tiers hold, under the key \<open>k\<close> of the namespace \<open>ns\<close>, an entry
  with timestamp \<open>t0\<close>, ttl \<open>d\<close> and payload \<open>v\<close>: the memory tier has it, and the
  file, if there is one that parses, has the same timestamp and ttl; or the memory tier
  has no entry for the key and the file has it.
\<close>

definition holdsEntry :: "CacheManager \<Rightarrow> string \<Rightarrow> string \<Rightarrow> int \<Rightarrow> int \<Rightarrow> json \<Rightarrow> bool" where
  "holdsEntry st ns k t0 d v \<longleftrightarrow>
     (case map_of (memoryCache st) k of
        Some m \<Rightarrow>
          timestamp m = t0 \<and> ttl m = d \<and> data m = v
          \<and> (case readEntryFile ns k st of
                Some (EntryFile f) \<Rightarrow> timestamp f = t0 \<and> ttl f = d
              | _ \<Rightarrow> True)
      | None \<Rightarrow>
          (case readEntryFile ns k st of
             Some (EntryFile f) \<Rightarrow> timestamp f = t0 \<and> ttl f = d \<and> data f = v
           | _ \<Rightarrow> False))"

text \<open>
  States of the examples: after \<^verbatim>\<open>set('grind75', 'key-a', {value: 42})\<close> at the
  instant 1000 from the fresh start; after the same call with \<^verbatim>\<open>{ttl: 1000}\<close> at the
  instant 5000; and a start on a disk that holds one expired entry with its metadata
  record.
\<close>

definition afterSet :: CacheManager where
  "afterSet = projr (set_cache md5Examples ''grind75'' ''key-a'' value42 None 1000 freshStart)"

definition afterSetTtl :: CacheManager where
  "afterSetTtl = projr (set_cache md5Examples ''grind75'' ''key-a'' value42 (Some 1000) 5000 freshStart)"

definition staleEntry :: CacheEntry where
  "staleEntry = \<lparr>data = JObj [(''value'', JNum 42)], timestamp = 1000, ttl = 500,
                 entry_size = 0, key = keyA\<rparr>"

definition staleRecord :: CacheMetadata where
  "staleRecord = \<lparr>meta_key = keyA, meta_timestamp = 1000, meta_ttl = 500, meta_size = 136,
                  fingerprint = ''0ddc4b47c822a930dfbb69febdcfe476'', accessed = 1000\<rparr>"

definition coldStart :: CacheManager where
  "coldStart = newCacheManager
     [''grind75'' \<mapsto> \<lparr>entry_files = [keyA \<mapsto> EntryFile staleEntry],
                         metadata_json = Some (MetadataFile [(keyA, staleRecord)])\<rparr>]"

text \<open>
  A memory tier with three large entries, inserted in the order \<open>a\<close>, \<open>b\<close>, \<open>c\<close>
  with the timestamps 30, 10 and 20.
\<close>

definition sized :: "string \<Rightarrow> int \<Rightarrow> int \<Rightarrow> CacheEntry" where
  "sized k t0 bytes = \<lparr>data = JNull, timestamp = t0, ttl = 1000, entry_size = bytes, key = k\<rparr>"

definition threeLarge :: CacheManager where
  "threeLarge =
     \<lparr>cacheDir = Map.empty,
      memoryCache = [(''a'', sized ''a'' 30 40000000), (''b'', sized ''b'' 10 40000000),
                     (''c'', sized ''c'' 20 30000000)],
      currentMemorySize = 110000000\<rparr>"

text \<open>
  A memory tier filled by calls: payloads that are strings of the letter \<open>x\<close>, a digest
  function that agrees with MD5 on the identifiers \<open>a\<close>, \<open>b\<close>, \<open>c\<close> and \<open>z\<close>, and
  the entry of such a payload in \<^verbatim>\<open>grind75\<close>. The disk at start holds the entry \<open>z\<close>
  of ten million letters, written at the instant 5 by an earlier run. \<open>warm\<close> is the
  state after \<^verbatim>\<open>set('grind75', 'a', ...)\<close> at the instant 10 and
  \<^verbatim>\<open>set('grind75', 'b', ...)\<close> at the instant 20, each with thirty-five million
  letters, and \<^verbatim>\<open>get('grind75', 'z')\<close> at the instant 30.
\<close>

definition letters :: "nat \<Rightarrow> string" where
  "letters n = replicate n CHR ''x''"

definition filler :: "nat \<Rightarrow> payload" where
  "filler n = ([], VStr (letters n))"

definition md5Letters :: "string \<Rightarrow> string" where
  "md5Letters s =
     (if s = ''a'' then ''0cc175b9c0f1b6a831c399e269772661''
      else if s = ''b'' then ''92eb5ffee6ae2fec3ad71c777531578f''
      else if s = ''c'' then ''4a8a08f09d37b73795649038408b5f33''
      else if s = ''z'' then ''fbade9e36a3f36d3d676c1b808451dd7''
      else ''d41d8cd98f00b204e9800998ecf8427e'')"

definition lettersEntry :: "string \<Rightarrow> nat \<Rightarrow> int \<Rightarrow> int \<Rightarrow> CacheEntry" where
  "lettersEntry ident n t0 bytes =
     \<lparr>data = JStr (letters n), timestamp = t0, ttl = 86400000, entry_size = bytes,
      key = generateKey md5Letters ''grind75'' ident\<rparr>"

definition oldDisk :: "string \<rightharpoonup> directory" where
  "oldDisk =
     [''grind75'' \<mapsto>
        \<lparr>entry_files = [generateKey md5Letters ''grind75'' ''z''
                           \<mapsto> EntryFile (lettersEntry ''z'' 10000000 5 0)],
         metadata_json = Some (MetadataFile
           [(generateKey md5Letters ''grind75'' ''z'',
             \<lparr>meta_key = generateKey md5Letters ''grind75'' ''z'', meta_timestamp = 5,
              meta_ttl = 86400000, meta_size = 10000119,
              fingerprint = ''25bd20db0e0bb2b6122ec40743d71157'', accessed = 5\<rparr>)])\<rparr>]"

definition warmOps :: "operation list" where
  "warmOps =
     [SetOp ''grind75'' ''a'' (filler 35000000) None 10,
      SetOp ''grind75'' ''b'' (filler 35000000) None 20,
      GetOp ''grind75'' ''z'' False 30]"

definition warm :: CacheManager where
  "warm = fold (perform md5Letters) warmOps (newCacheManager oldDisk)"

text \<open>
  For \<open>cleanup\<close>: whether a metadata record is expired, and the removal of the entry
  files of a list of keys, each as \<open>cleanup\<close> does it (when the file exists).
\<close>

definition expiredRecord :: "int \<Rightarrow> string \<times> CacheMetadata \<Rightarrow> bool" where
  "expiredRecord now p = isExpired now (meta_timestamp (snd p)) (meta_ttl (snd p))"

fun unlinkAll :: "string \<Rightarrow> string list \<Rightarrow> CacheManager \<Rightarrow> CacheManager" where
  "unlinkAll ns [] st = st"
| "unlinkAll ns (k # ks) st =
     unlinkAll ns ks (if readEntryFile ns k st \<noteq> None then unlinkEntryFile ns k st else st)"

text \<open>
  Further states of the examples: a start on a disk with three entries in
  \<^verbatim>\<open>grind75\<close>, two of them expired at the instant 5000, and a start on a disk whose
  metadata document for \<^verbatim>\<open>grind75\<close> does not parse.
\<close>

definition keyB :: string where
  "keyB = ''grind75_92eb5ffee6ae2fec3ad71c777531578f''"

definition keyC :: string where
  "keyC = ''grind75_0cc175b9c0f1b6a831c399e269772661''"

definition entryAt :: "string \<Rightarrow> int \<Rightarrow> int \<Rightarrow> CacheEntry" where
  "entryAt k t0 d = \<lparr>data = JObj [(''value'', JNum 42)], timestamp = t0, ttl = d,
                     entry_size = 0, key = k\<rparr>"

definition recordAt :: "string \<Rightarrow> int \<Rightarrow> int \<Rightarrow> CacheMetadata" where
  "recordAt k t0 d = \<lparr>meta_key = k, meta_timestamp = t0, meta_ttl = d,
                      meta_size = byteLength (entryContent (entryAt k t0 d)),
                      fingerprint = ''0ddc4b47c822a930dfbb69febdcfe476'', accessed = t0\<rparr>"

definition sweepStart :: CacheManager where
  "sweepStart = newCacheManager
     [''grind75'' \<mapsto>
        \<lparr>entry_files = [keyB \<mapsto> EntryFile (entryAt keyB 3000 1000),
                        keyC \<mapsto> EntryFile (entryAt keyC 1000 2000),
                        keyA \<mapsto> EntryFile (entryAt keyA 4000 86400000)],
         metadata_json = Some (MetadataFile
           [(keyB, recordAt keyB 3000 1000), (keyC, recordAt keyC 1000 2000),
            (keyA, recordAt keyA 4000 86400000)])\<rparr>]"

definition corruptStart :: CacheManager where
  "corruptStart = newCacheManager
     [''grind75'' \<mapsto> \<lparr>entry_files = Map.empty, metadata_json = Some CorruptMetadataFile\<rparr>]"

section \<open>Properties\<close>

subsection \<open>Printing a numeral\<close>

text \<open>The equation of \<open>show_nat\<close> is unfolded on numerals only, where it terminates.\<close>

lemma show_nat_numeral [simp]:
  "show_nat (numeral k) =
     (if (numeral k :: nat) < 10 then [digit_char (numeral k)]
      else show_nat (numeral k div 10) @ [digit_char (numeral k mod 10)])"
  by (rule show_nat.simps)

lemma show_nat_0 [simp]: "show_nat 0 = [digit_char 0]"
  by (simp add: show_nat.simps)

lemma show_nat_1 [simp]: "show_nat (Suc 0) = [digit_char 1]"
  by (simp add: show_nat.simps)

text \<open>An integer below \<open>2 ^ 53\<close> in magnitude is printed with all its digits.\<close>

lemma show_int_small:
  assumes "\<bar>i\<bar> < 9007199254740992"
  shows "show_int i = withSign i (show_nat (nat \<bar>i\<bar>))"
proof -
  have "nat \<bar>i\<bar> < 9007199254740992" using assms by linarith
  then show ?thesis unfolding show_int_def Let_def by (simp only: if_True)
qed


subsection \<open>Byte lengths\<close>

lemma byteLength_append: "byteLength (s @ t) = byteLength s + byteLength t"
  by (simp add: byteLength_def)

lemma byteLength_Cons:
  "byteLength (c # s) = (if 128 \<le> (of_char c :: nat) then 2 else 1) + byteLength s"
  by (simp add: byteLength_def)

lemma byteLength_Nil: "byteLength [] = 0"
  by (simp add: byteLength_def)

lemma byteLength_letters: "byteLength (letters n) = int n"
  by (induction n) (simp_all add: byteLength_def letters_def)

lemma quote_letters: "quote (letters n) = dquote # letters n @ [dquote]"
proof -
  have "concat (map escape_char (replicate n CHR ''x'')) = replicate n CHR ''x''"
    by (induction n) (simp_all add: escape_char_def dquote_def)
  then show ?thesis by (simp add: quote_def letters_def)
qed

subsection \<open>What each helper leaves alone\<close>

lemma saveMetadata_memory [simp]:
  "memoryCache (saveMetadata ns m st) = memoryCache st"
  "currentMemorySize (saveMetadata ns m st) = currentMemorySize st"
  by (simp_all add: saveMetadata_def split: option.splits)

lemma unlinkEntryFile_memory [simp]:
  "memoryCache (unlinkEntryFile ns k st) = memoryCache st"
  "currentMemorySize (unlinkEntryFile ns k st) = currentMemorySize st"
  by (simp_all add: unlinkEntryFile_def split: option.splits)

lemma evictLoop_cacheDir [simp]: "cacheDir (evictLoop es st) = cacheDir st"
  by (induction es st rule: evictLoop.induct) simp_all

lemma evictMemoryCache_cacheDir [simp]: "cacheDir (evictMemoryCache st) = cacheDir st"
  by (simp add: evictMemoryCache_def)

lemma memoryInsert_cacheDir [simp]: "cacheDir (memoryInsert k e st) = cacheDir st"
  by (simp add: memoryInsert_def Let_def)

lemma metadataDocument_cong: "cacheDir st = cacheDir st' \<Longrightarrow> metadataDocument st ns = metadataDocument st' ns"
  by (simp add: metadataDocument_def)

lemma loadMetadata_cong: "cacheDir st = cacheDir st' \<Longrightarrow> loadMetadata ns st = loadMetadata ns st'"
  by (simp add: loadMetadata_def metadataDocument_def)

lemma readEntryFile_cong: "cacheDir st = cacheDir st' \<Longrightarrow> readEntryFile ns k st = readEntryFile ns k st'"
  by (simp add: readEntryFile_def)

lemma memoryInsert_disk [simp]:
  "metadataDocument (memoryInsert k e st) ns = metadataDocument st ns"
  "loadMetadata ns (memoryInsert k e st) = loadMetadata ns st"
  "readEntryFile ns k' (memoryInsert k e st) = readEntryFile ns k' st"
  by (simp_all add: metadataDocument_def loadMetadata_def readEntryFile_def)

lemma memory_update_disk [simp]:
  "metadataDocument (st\<lparr>memoryCache := m, currentMemorySize := c\<rparr>) ns = metadataDocument st ns"
  "loadMetadata ns (st\<lparr>memoryCache := m, currentMemorySize := c\<rparr>) = loadMetadata ns st"
  "readEntryFile ns k (st\<lparr>memoryCache := m, currentMemorySize := c\<rparr>) = readEntryFile ns k st"
  "metadataDocument (st\<lparr>memoryCache := m\<rparr>) ns = metadataDocument st ns"
  "loadMetadata ns (st\<lparr>memoryCache := m\<rparr>) = loadMetadata ns st"
  "readEntryFile ns k (st\<lparr>memoryCache := m\<rparr>) = readEntryFile ns k st"
  by (simp_all add: metadataDocument_def loadMetadata_def readEntryFile_def)

lemma saveMetadata_document:
  "metadataDocument (saveMetadata ns m st) ns' =
     (if ns' = ns \<and> cacheDir st ns \<noteq> None then Some (MetadataFile m) else metadataDocument st ns')"
  by (auto simp add: saveMetadata_def metadataDocument_def split: option.splits)

lemma saveMetadata_entries [simp]:
  "readEntryFile ns' k (saveMetadata ns m st) = readEntryFile ns' k st"
  by (simp add: saveMetadata_def readEntryFile_def split: option.splits)

lemma unlinkEntryFile_document [simp]:
  "metadataDocument (unlinkEntryFile ns k st) ns' = metadataDocument st ns'"
  by (simp add: unlinkEntryFile_def metadataDocument_def split: option.splits)

lemma unlinkEntryFile_load [simp]:
  "loadMetadata ns' (unlinkEntryFile ns k st) = loadMetadata ns' st"
  by (simp add: loadMetadata_def)

lemma unlinkEntryFile_entries:
  "readEntryFile ns' k' (unlinkEntryFile ns k st) =
     (if ns' = ns \<and> k' = k then None else readEntryFile ns' k' st)"
  by (auto simp add: unlinkEntryFile_def readEntryFile_def split: option.splits)

subsection \<open>The eviction loop\<close>

lemma byteLength_nonneg [simp]: "0 \<le> byteLength s"
  by (simp add: byteLength_def)

text \<open>
  The loop removes a prefix of the list it is given: the first \<open>n\<close> entries, where
  before each removal the total was above the mark and the loop ends at the mark or at
  the end of the list.
\<close>

lemma evictLoop_prefix:
  "\<exists>n\<le>length es.
      memoryCache (evictLoop es st) = filter (\<lambda>p. fst p \<notin> fst ` set (take n es)) (memoryCache st)
    \<and> currentMemorySize (evictLoop es st) = currentMemorySize st - sizes (take n es)
    \<and> (\<forall>m<n. 8 * maxMemorySize < 10 * (currentMemorySize st - sizes (take m es)))
    \<and> (n = length es \<or> 10 * (currentMemorySize st - sizes (take n es)) \<le> 8 * maxMemorySize)"
proof (induction es arbitrary: st)
  case Nil
  show ?case by (simp add: sizes_def)
next
  case (Cons p es)
  obtain k e where p: "p = (k, e)" by (cases p)
  show ?case
  proof (cases "10 * currentMemorySize st > 8 * maxMemorySize")
    case False
    then have "evictLoop (p # es) st = st" by (simp add: p)
    with False show ?thesis by (intro exI [of _ 0]) (simp add: sizes_def)
  next
    case True
    let ?st = "st\<lparr>memoryCache := AList.delete k (memoryCache st),
                   currentMemorySize := currentMemorySize st - entry_size e\<rparr>"
    from True have step: "evictLoop (p # es) st = evictLoop es ?st" by (simp add: p)
    from Cons.IH [of ?st] obtain n where n: "n \<le> length es"
      "memoryCache (evictLoop es ?st) = filter (\<lambda>q. fst q \<notin> fst ` set (take n es)) (memoryCache ?st)"
      "currentMemorySize (evictLoop es ?st) = currentMemorySize ?st - sizes (take n es)"
      "\<forall>m<n. 8 * maxMemorySize < 10 * (currentMemorySize ?st - sizes (take m es))"
      "n = length es \<or> 10 * (currentMemorySize ?st - sizes (take n es)) \<le> 8 * maxMemorySize"
      by blast
    have del: "AList.delete k (memoryCache st) = filter (\<lambda>q. fst q \<noteq> k) (memoryCache st)"
      by (auto simp add: AList.delete_eq case_prod_unfold intro!: filter_cong)
    have "memoryCache (evictLoop (p # es) st) =
            filter (\<lambda>q. fst q \<notin> fst ` set (take (Suc n) (p # es))) (memoryCache st)"
      unfolding step n(2) by (auto simp add: del p intro!: filter_cong)
    moreover have "currentMemorySize (evictLoop (p # es) st) =
            currentMemorySize st - sizes (take (Suc n) (p # es))"
      unfolding step n(3) by (simp add: p sizes_def)
    moreover have "\<forall>m<Suc n. 8 * maxMemorySize < 10 * (currentMemorySize st - sizes (take m (p # es)))"
    proof (intro allI impI)
      fix m assume m: "m < Suc n"
      show "8 * maxMemorySize < 10 * (currentMemorySize st - sizes (take m (p # es)))"
      proof (cases m)
        case 0
        then show ?thesis using True by (simp add: sizes_def)
      next
        case (Suc m')
        then have "m' < n" using m by simp
        then show ?thesis using n(4) Suc by (simp add: p sizes_def algebra_simps)
      qed
    qed
    moreover have "Suc n = length (p # es) \<or>
            10 * (currentMemorySize st - sizes (take (Suc n) (p # es))) \<le> 8 * maxMemorySize"
      using n(5) by (auto simp add: p sizes_def algebra_simps)
    ultimately show ?thesis using n(1) by (intro exI [of _ "Suc n"]) simp
  qed
qed

lemma evictLoop_effect:
  "\<exists>n\<le>length es.
      memoryCache (evictLoop es st) = filter (\<lambda>p. fst p \<notin> fst ` set (take n es)) (memoryCache st)
    \<and> currentMemorySize (evictLoop es st) = currentMemorySize st - sizes (take n es)
    \<and> (n = length es \<or> 10 * currentMemorySize (evictLoop es st) \<le> 8 * maxMemorySize)"
proof -
  obtain n where n: "n \<le> length es"
    "memoryCache (evictLoop es st) = filter (\<lambda>p. fst p \<notin> fst ` set (take n es)) (memoryCache st)"
    "currentMemorySize (evictLoop es st) = currentMemorySize st - sizes (take n es)"
    "n = length es \<or> 10 * (currentMemorySize st - sizes (take n es)) \<le> 8 * maxMemorySize"
    using evictLoop_prefix [of es st] by blast
  show ?thesis using n by (intro exI [of _ n]) simp
qed


subsection \<open>Sizes and the eviction\<close>

lemma sizes_insort: "sizes (insort_key f x xs) = entry_size (snd x) + sizes xs"
  by (induction xs) (simp_all add: sizes_def)

lemma sizes_sort: "sizes (sort_key f xs) = sizes xs"
  by (induction xs) (simp_all add: sizes_def sizes_insort [unfolded sizes_def])

lemma sizes_nonneg: "\<forall>p\<in>set es. 0 \<le> entry_size (snd p) \<Longrightarrow> 0 \<le> sizes es"
  by (induction es) (simp_all add: sizes_def)

lemma sizes_member:
  "\<forall>p\<in>set es. 0 \<le> entry_size (snd p) \<Longrightarrow> q \<in> set es \<Longrightarrow> entry_size (snd q) \<le> sizes es"
proof (induction es)
  case Nil
  then show ?case by simp
next
  case (Cons p es)
  then have rest: "0 \<le> sizes es" by (simp add: sizes_nonneg)
  from Cons show ?case using rest by (auto simp add: sizes_def)
qed

lemma update_member: "(k, v) \<in> set (AList.update k v al)"
  by (induction al) auto

lemma update_subset: "p \<in> set (AList.update k v al) \<Longrightarrow> p = (k, v) \<or> p \<in> set al"
  by (induction al) (auto split: if_splits)

text \<open>What the eviction does to a memory tier whose keys are distinct.\<close>

lemma evictMemoryCache_effect:
  assumes d: "distinct (map fst (memoryCache st))"
  shows "set (memoryCache (evictMemoryCache st)) \<subseteq> set (memoryCache st)"
    and "distinct (map fst (memoryCache (evictMemoryCache st)))"
    and "\<forall>p\<in>set (memoryCache st) - set (memoryCache (evictMemoryCache st)).
           \<forall>q\<in>set (memoryCache (evictMemoryCache st)). timestamp (snd p) \<le> timestamp (snd q)"
    and "(memoryCache (evictMemoryCache st) = []
            \<and> currentMemorySize (evictMemoryCache st) = currentMemorySize st - sizes (memoryCache st))
         \<or> (10 * currentMemorySize (evictMemoryCache st) \<le> 8 * maxMemorySize)"
    and "(\<forall>p\<in>set (memoryCache st). 0 \<le> entry_size (snd p))
           \<Longrightarrow> currentMemorySize (evictMemoryCache st) \<le> currentMemorySize st"
proof -
  let ?es = "sort_key (\<lambda>p. timestamp (snd p)) (memoryCache st)"
  let ?st = "evictMemoryCache st"
  obtain n where n: "n \<le> length ?es"
    and mem: "memoryCache ?st = filter (\<lambda>p. fst p \<notin> fst ` set (take n ?es)) (memoryCache st)"
    and cur: "currentMemorySize ?st = currentMemorySize st - sizes (take n ?es)"
    and stop: "n = length ?es \<or> 10 * currentMemorySize ?st \<le> 8 * maxMemorySize"
    using evictLoop_effect [of ?es st] unfolding evictMemoryCache_def by blast
  have set_es: "set ?es = set (memoryCache st)" by simp
  have dist_es: "distinct (map fst ?es)"
    using d by (metis distinct_map distinct_sort set_sort)
  have split: "?es = take n ?es @ drop n ?es" by simp
  have disj: "fst ` set (take n ?es) \<inter> fst ` set (drop n ?es) = {}"
    using dist_es by (metis append_take_drop_id distinct_append map_append set_map)
  have kept: "set (memoryCache ?st) = set (drop n ?es)"
  proof -
    have "set (memoryCache ?st) = {p \<in> set ?es. fst p \<notin> fst ` set (take n ?es)}"
      unfolding mem by (simp add: set_es)
    also have "\<dots> = set (drop n ?es)"
    proof -
      have "set ?es = set (take n ?es) \<union> set (drop n ?es)"
        by (metis append_take_drop_id set_append)
      then show ?thesis using disj by (auto simp del: set_sort)
    qed
    finally show ?thesis .
  qed
  show "set (memoryCache ?st) \<subseteq> set (memoryCache st)"
    unfolding mem by auto
  show "distinct (map fst (memoryCache ?st))"
    unfolding mem using d by (simp add: distinct_map_filter)
  show "\<forall>p\<in>set (memoryCache st) - set (memoryCache ?st).
           \<forall>q\<in>set (memoryCache ?st). timestamp (snd p) \<le> timestamp (snd q)"
  proof (intro ballI)
    fix p q
    assume p: "p \<in> set (memoryCache st) - set (memoryCache ?st)" and q: "q \<in> set (memoryCache ?st)"
    have "p \<in> set (take n ?es)"
      using p kept set_es by (metis DiffE UnE append_take_drop_id set_append)
    moreover have "q \<in> set (drop n ?es)" using q kept by simp
    moreover have "sorted (map (\<lambda>p. timestamp (snd p)) (take n ?es @ drop n ?es))"
      by (simp only: append_take_drop_id sorted_sort_key)
    ultimately show "timestamp (snd p) \<le> timestamp (snd q)"
      by (auto simp add: sorted_append simp del: append_take_drop_id)
  qed
  show "(memoryCache ?st = [] \<and> currentMemorySize ?st = currentMemorySize st - sizes (memoryCache st))
         \<or> (10 * currentMemorySize ?st \<le> 8 * maxMemorySize)"
  proof (cases "n = length ?es")
    case True
    then have "take n ?es = ?es" by simp
    then have "memoryCache ?st = []" and "currentMemorySize ?st = currentMemorySize st - sizes (memoryCache st)"
      using mem cur set_es by (auto simp add: sizes_sort filter_empty_conv simp del: set_sort)
    then show ?thesis by simp
  next
    case False
    then show ?thesis using stop by simp
  qed
  show "currentMemorySize ?st \<le> currentMemorySize st"
    if nonneg: "\<forall>p\<in>set (memoryCache st). 0 \<le> entry_size (snd p)"
  proof -
    have "\<forall>p\<in>set (take n ?es). 0 \<le> entry_size (snd p)"
      using nonneg set_es by (metis in_set_takeD)
    then have "0 \<le> sizes (take n ?es)" by (rule sizes_nonneg)
    then show ?thesis using cur by simp
  qed
qed

lemma same_key_same_entry:
  "distinct (map fst xs) \<Longrightarrow> p \<in> set xs \<Longrightarrow> q \<in> set xs \<Longrightarrow> fst p = fst q \<Longrightarrow> p = q"
  by (metis eq_key_imp_eq_value prod.collapse)

lemma evictMemoryCache_prefix:
  assumes d: "distinct (map fst (memoryCache st))"
    and over: "8 * maxMemorySize < 10 * currentMemorySize st"
    and nonempty: "memoryCache st \<noteq> []"
    and es: "es = sort_key (\<lambda>p. timestamp (snd p)) (memoryCache st)"
  shows "\<exists>n. 0 < n \<and> n \<le> length es
      \<and> memoryCache (evictMemoryCache st) = filter (\<lambda>p. p \<notin> set (take n es)) (memoryCache st)
      \<and> currentMemorySize (evictMemoryCache st) = currentMemorySize st - sizes (take n es)
      \<and> (\<forall>m<n. 8 * maxMemorySize < 10 * (currentMemorySize st - sizes (take m es)))
      \<and> (n = length es \<or> 10 * (currentMemorySize st - sizes (take n es)) \<le> 8 * maxMemorySize)"
proof -
  obtain n where n: "n \<le> length es"
    and mem: "memoryCache (evictMemoryCache st)
        = filter (\<lambda>p. fst p \<notin> fst ` set (take n es)) (memoryCache st)"
    and cur: "currentMemorySize (evictMemoryCache st) = currentMemorySize st - sizes (take n es)"
    and least: "\<forall>m<n. 8 * maxMemorySize < 10 * (currentMemorySize st - sizes (take m es))"
    and stop: "n = length es \<or> 10 * (currentMemorySize st - sizes (take n es)) \<le> 8 * maxMemorySize"
    using evictLoop_prefix [of es st] unfolding evictMemoryCache_def es by blast
  have set_es: "set es = set (memoryCache st)" unfolding es by simp
  have len: "es \<noteq> []" using nonempty set_es by (metis set_empty)
  have pos: "0 < n"
  proof (rule ccontr)
    assume "\<not> 0 < n"
    then have "n = 0" by simp
    with stop over len show False by (simp add: sizes_def)
  qed
  have "fst p \<notin> fst ` set (take n es) \<longleftrightarrow> p \<notin> set (take n es)" if p: "p \<in> set (memoryCache st)" for p
  proof
    assume "fst p \<notin> fst ` set (take n es)"
    then show "p \<notin> set (take n es)" by auto
  next
    assume out: "p \<notin> set (take n es)"
    show "fst p \<notin> fst ` set (take n es)"
    proof
      assume "fst p \<in> fst ` set (take n es)"
      then obtain q where q: "q \<in> set (take n es)" "fst p = fst q" by auto
      then have "q \<in> set (memoryCache st)" using set_es by (metis in_set_takeD)
      then have "p = q" using same_key_same_entry [OF d p _ q(2)] by simp
      with q(1) out show False by simp
    qed
  qed
  then have "filter (\<lambda>p. fst p \<notin> fst ` set (take n es)) (memoryCache st)
      = filter (\<lambda>p. p \<notin> set (take n es)) (memoryCache st)"
    by (intro filter_cong) auto
  with mem have mem': "memoryCache (evictMemoryCache st)
      = filter (\<lambda>p. p \<notin> set (take n es)) (memoryCache st)" by simp
  show ?thesis using pos n mem' cur least stop by blast
qed


text \<open>
  The eviction on three large entries: the total of 110000000 is above the 83886080 of
  the test, the oldest entry \<open>b\<close> goes, and the total of 70000000 ends the loop.
\<close>

lemma eviction_example:
  "memoryCache (evictMemoryCache threeLarge)
     = [(''a'', sized ''a'' 30 40000000), (''c'', sized ''c'' 20 30000000)]
   \<and> currentMemorySize (evictMemoryCache threeLarge) = 70000000"
  by (simp add: evictMemoryCache_def threeLarge_def sized_def maxMemorySize_def)

subsection \<open>The memory tier between operations\<close>

lemma memoryInsert_invariant:
  assumes inv: "memoryInvariant st" and e: "0 \<le> entry_size e"
  shows "memoryInvariant (memoryInsert k e st)"
proof -
  let ?st1 = "st\<lparr>memoryCache := AList.update k e (memoryCache st),
                  currentMemorySize := currentMemorySize st + entry_size e\<rparr>"
  have d1: "distinct (map fst (memoryCache ?st1))"
    using inv by (simp add: memoryInvariant_def distinct_update)
  have s1: "\<forall>p\<in>set (memoryCache ?st1). 0 \<le> entry_size (snd p)"
    using inv e by (auto simp add: memoryInvariant_def dest!: update_subset)
  show ?thesis
  proof (cases "currentMemorySize ?st1 > maxMemorySize")
    case False
    then have "memoryInsert k e st = ?st1" by (simp add: memoryInsert_def)
    then show ?thesis using d1 s1 False by (simp add: memoryInvariant_def)
  next
    case True
    then have eq: "memoryInsert k e st = evictMemoryCache ?st1" by (simp add: memoryInsert_def)
    have "entry_size e \<le> sizes (memoryCache ?st1)"
      using sizes_member [OF s1, of "(k, e)"] update_member [of k e "memoryCache st"] by simp
    then have all: "currentMemorySize ?st1 - sizes (memoryCache ?st1) \<le> maxMemorySize"
      using inv by (simp add: memoryInvariant_def)
    have "currentMemorySize (evictMemoryCache ?st1) \<le> maxMemorySize"
      using evictMemoryCache_effect(4) [OF d1] all by (auto simp add: maxMemorySize_def)
    moreover have "distinct (map fst (memoryCache (evictMemoryCache ?st1)))"
      by (rule evictMemoryCache_effect(2) [OF d1])
    moreover have "\<forall>p\<in>set (memoryCache (evictMemoryCache ?st1)). 0 \<le> entry_size (snd p)"
      using evictMemoryCache_effect(1) [OF d1] s1 by blast
    ultimately show ?thesis unfolding eq memoryInvariant_def by simp
  qed
qed

lemma saveMetadata_invariant [simp]:
  "memoryInvariant (saveMetadata ns m st) = memoryInvariant st"
  by (simp add: memoryInvariant_def)

lemma unlinkEntryFile_invariant [simp]:
  "memoryInvariant (unlinkEntryFile ns k st) = memoryInvariant st"
  by (simp add: memoryInvariant_def)

lemma getFromFile_invariant:
  "memoryInvariant st \<Longrightarrow> memoryInvariant (snd (getFromFile ns k acc now st))"
  by (auto simp add: getFromFile_def Let_def memoryInsert_invariant
      split: option.splits entry_file.splits)

lemma delete_subset: "set (AList.delete k al) \<subseteq> set al"
  by (auto simp add: AList.delete_eq)

lemma memory_delete_invariant:
  assumes inv: "memoryInvariant st" and m: "map_of (memoryCache st) k = Some e"
  shows "memoryInvariant (st\<lparr>memoryCache := AList.delete k (memoryCache st),
                              currentMemorySize := currentMemorySize st - entry_size e\<rparr>)"
proof -
  have "(k, e) \<in> set (memoryCache st)" using m by (rule map_of_SomeD)
  then have "0 \<le> entry_size e" using inv by (auto simp add: memoryInvariant_def)
  then show ?thesis
    using inv delete_subset [of k "memoryCache st"]
    by (auto simp add: memoryInvariant_def distinct_delete)
qed

lemma get_invariant:
  "memoryInvariant st \<Longrightarrow> memoryInvariant (snd (get digest ns ident acc now st))"
  by (auto simp add: get_def Let_def getFromFile_invariant memory_delete_invariant
      split: option.splits)

lemma cacheDir_update_invariant [simp]:
  "memoryInvariant (st\<lparr>cacheDir := f\<rparr>) = memoryInvariant st"
  by (simp add: memoryInvariant_def)

lemma storeEntry_invariant:
  "memoryInvariant st \<Longrightarrow> 0 \<le> bytes \<Longrightarrow> memoryInvariant (storeEntry ns k entry bytes fp now st)"
  by (auto simp add: storeEntry_def Let_def split: option.splits intro!: memoryInsert_invariant)

lemma set_cache_invariant:
  assumes "memoryInvariant st" and "set_cache digest ns ident d ttlOption now st = Inr st'"
  shows "memoryInvariant st'"
  using assms by (auto simp add: set_cache_def Let_def storeEntry_invariant split: sum.splits)

lemma perform_invariant: "memoryInvariant st \<Longrightarrow> memoryInvariant (perform digest op st)"
  by (cases op) (auto simp add: get_invariant set_cache_invariant split: sum.splits)

lemma newCacheManager_invariant: "memoryInvariant (newCacheManager disk)"
  by (simp add: memoryInvariant_def newCacheManager_def maxMemorySize_def)

lemma reachable_invariant: "memoryInvariant st \<Longrightarrow> memoryInvariant (fold (perform digest) ops st)"
  by (induction ops arbitrary: st) (simp_all add: perform_invariant)

subsection \<open>What \<open>set\<close> and \<open>get\<close> do, case by case\<close>

lemma evictLoop_memory_cong:
  "memoryCache st = memoryCache st' \<Longrightarrow> currentMemorySize st = currentMemorySize st' \<Longrightarrow>
   memoryCache (evictLoop es st) = memoryCache (evictLoop es st')
   \<and> currentMemorySize (evictLoop es st) = currentMemorySize (evictLoop es st')"
proof (induction es arbitrary: st st')
  case Nil
  then show ?case by simp
next
  case (Cons p es)
  obtain k e where p: "p = (k, e)" by (cases p)
  show ?case
  proof (cases "10 * currentMemorySize st > 8 * maxMemorySize")
    case False
    with Cons.prems show ?thesis by (simp add: p)
  next
    case True
    let ?s = "st\<lparr>memoryCache := AList.delete k (memoryCache st),
                  currentMemorySize := currentMemorySize st - entry_size e\<rparr>"
    let ?s' = "st'\<lparr>memoryCache := AList.delete k (memoryCache st'),
                  currentMemorySize := currentMemorySize st' - entry_size e\<rparr>"
    have "memoryCache ?s = memoryCache ?s'" "currentMemorySize ?s = currentMemorySize ?s'"
      using Cons.prems by simp_all
    from Cons.IH [OF this] True Cons.prems show ?thesis by (simp add: p)
  qed
qed

lemma memoryInsert_memory_cong:
  assumes "memoryCache st = memoryCache st'" and "currentMemorySize st = currentMemorySize st'"
  shows "memoryCache (memoryInsert k e st) = memoryCache (memoryInsert k e st')"
    and "currentMemorySize (memoryInsert k e st) = currentMemorySize (memoryInsert k e st')"
proof -
  let ?s = "st\<lparr>memoryCache := AList.update k e (memoryCache st),
                currentMemorySize := currentMemorySize st + entry_size e\<rparr>"
  let ?s' = "st'\<lparr>memoryCache := AList.update k e (memoryCache st'),
                currentMemorySize := currentMemorySize st' + entry_size e\<rparr>"
  have eq: "memoryCache ?s = memoryCache ?s'" "currentMemorySize ?s = currentMemorySize ?s'"
    using assms by simp_all
  note ev = evictLoop_memory_cong [OF eq, of "sort_key (\<lambda>p. timestamp (snd p)) (memoryCache ?s)"]
  show "memoryCache (memoryInsert k e st) = memoryCache (memoryInsert k e st')"
    using ev assms by (simp add: memoryInsert_def evictMemoryCache_def Let_def)
  show "currentMemorySize (memoryInsert k e st) = currentMemorySize (memoryInsert k e st')"
    using ev assms by (simp add: memoryInsert_def evictMemoryCache_def Let_def)
qed

lemma memoryInsert_no_eviction:
  "currentMemorySize st + entry_size e \<le> maxMemorySize \<Longrightarrow>
   memoryInsert k e st = st\<lparr>memoryCache := AList.update k e (memoryCache st),
                             currentMemorySize := currentMemorySize st + entry_size e\<rparr>"
  by (simp add: memoryInsert_def)

lemma map_of_filter_fst:
  "map_of (filter (\<lambda>p. P (fst p)) xs) k = (if P k then map_of xs k else None)"
  by (induction xs) auto

lemma evictLoop_lookup:
  "map_of (memoryCache (evictLoop es st)) k = None
   \<or> map_of (memoryCache (evictLoop es st)) k = map_of (memoryCache st) k"
proof -
  obtain n where "memoryCache (evictLoop es st)
      = filter (\<lambda>p. fst p \<notin> fst ` set (take n es)) (memoryCache st)"
    using evictLoop_effect [of es st] by blast
  then show ?thesis
    using map_of_filter_fst [of "\<lambda>x. x \<notin> fst ` set (take n es)" "memoryCache st" k] by auto
qed

lemma memoryInsert_lookup:
  "map_of (memoryCache (memoryInsert k e st)) k = None
   \<or> map_of (memoryCache (memoryInsert k e st)) k = Some e"
proof -
  let ?s = "st\<lparr>memoryCache := AList.update k e (memoryCache st),
                currentMemorySize := currentMemorySize st + entry_size e\<rparr>"
  have "map_of (memoryCache ?s) k = Some e" by (simp add: update_conv')
  then show ?thesis
    using evictLoop_lookup [of "sort_key (\<lambda>p. timestamp (snd p)) (memoryCache ?s)" ?s k]
    by (auto simp add: memoryInsert_def evictMemoryCache_def Let_def)
qed

lemma storeEntry_missing:
  "cacheDir st ns = None \<Longrightarrow> storeEntry ns k entry bytes fp now st = st"
  by (simp add: storeEntry_def)

lemma storeEntry_disk:
  assumes "cacheDir st ns = Some dir"
  shows "readEntryFile ns k (storeEntry ns k entry bytes fp now st) = Some (EntryFile entry)"
    and "loadMetadata ns (storeEntry ns k entry bytes fp now st) =
           AList.update k \<lparr>meta_key = k, meta_timestamp = now, meta_ttl = ttl entry,
             meta_size = bytes, fingerprint = fp, accessed = now\<rparr> (loadMetadata ns st)"
  using assms
  by (simp_all add: storeEntry_def Let_def saveMetadata_def readEntryFile_def loadMetadata_def
      metadataDocument_def)

lemma storeEntry_memory:
  assumes "cacheDir st ns = Some dir"
  shows "memoryCache (storeEntry ns k entry bytes fp now st)
           = memoryCache (memoryInsert k (entry\<lparr>entry_size := bytes\<rparr>) st)"
    and "currentMemorySize (storeEntry ns k entry bytes fp now st)
           = currentMemorySize (memoryInsert k (entry\<lparr>entry_size := bytes\<rparr>) st)"
proof -
  let ?st1 = "st\<lparr>cacheDir := (cacheDir st)(ns \<mapsto>
                    dir\<lparr>entry_files := (entry_files dir)(k \<mapsto> EntryFile entry)\<rparr>)\<rparr>"
  let ?st2 = "saveMetadata ns
                (AList.update k
                   \<lparr>meta_key = k, meta_timestamp = now, meta_ttl = ttl entry,
                    meta_size = bytes, fingerprint = fp, accessed = now\<rparr>
                   (loadMetadata ns ?st1)) ?st1"
  have eq: "storeEntry ns k entry bytes fp now st = memoryInsert k (entry\<lparr>entry_size := bytes\<rparr>) ?st2"
    using assms by (simp add: storeEntry_def Let_def)
  have m: "memoryCache ?st2 = memoryCache st" "currentMemorySize ?st2 = currentMemorySize st"
    by simp_all
  show "memoryCache (storeEntry ns k entry bytes fp now st)
           = memoryCache (memoryInsert k (entry\<lparr>entry_size := bytes\<rparr>) st)"
    unfolding eq by (rule memoryInsert_memory_cong(1) [OF m])
  show "currentMemorySize (storeEntry ns k entry bytes fp now st)
           = currentMemorySize (memoryInsert k (entry\<lparr>entry_size := bytes\<rparr>) st)"
    unfolding eq by (rule memoryInsert_memory_cong(2) [OF m])
qed


lemma set_cache_circular:
  "jsonTree (fst d) {} (snd d) = Inl e \<Longrightarrow> set_cache digest ns ident d ttlOption now st = Inl e"
  by (simp add: set_cache_def)

lemma set_cache_stores:
  "jsonTree (fst d) {} (snd d) = Inr tree \<Longrightarrow>
   set_cache digest ns ident d ttlOption now st =
     Inr (storeEntry ns (generateKey digest ns ident)
            \<lparr>data = tree, timestamp = now, ttl = effectiveTtl ttlOption, entry_size = 0,
             key = generateKey digest ns ident\<rparr>
            (byteLength (entryContent
               \<lparr>data = tree, timestamp = now, ttl = effectiveTtl ttlOption, entry_size = 0,
                key = generateKey digest ns ident\<rparr>))
            (generateFingerprint digest d) now st)"
  by (simp add: set_cache_def Let_def)

lemma get_memory_hit:
  "map_of (memoryCache st) (generateKey digest ns ident) = Some m \<Longrightarrow>
   \<not> isExpired now (timestamp m) (ttl m) \<or> acc \<Longrightarrow>
   get digest ns ident acc now st = (Some (data m), st)"
  by (auto simp add: get_def)

lemma get_memory_expired:
  "map_of (memoryCache st) (generateKey digest ns ident) = Some m \<Longrightarrow>
   isExpired now (timestamp m) (ttl m) \<Longrightarrow>
   get digest ns ident False now st =
     getFromFile ns (generateKey digest ns ident) False now
       (st\<lparr>memoryCache := AList.delete (generateKey digest ns ident) (memoryCache st),
           currentMemorySize := currentMemorySize st - entry_size m\<rparr>)"
  by (simp add: get_def Let_def)

lemma get_memory_miss:
  "map_of (memoryCache st) (generateKey digest ns ident) = None \<Longrightarrow>
   get digest ns ident acc now st = getFromFile ns (generateKey digest ns ident) acc now st"
  by (simp add: get_def)

lemma getFromFile_hit:
  "readEntryFile ns k st = Some (EntryFile e) \<Longrightarrow>
   \<not> isExpired now (timestamp e) (ttl e) \<or> acc \<Longrightarrow>
   fst (getFromFile ns k acc now st) = Some (data e)"
  by (auto simp add: getFromFile_def Let_def)

lemma getFromFile_expired:
  "readEntryFile ns k st = Some (EntryFile e) \<Longrightarrow>
   isExpired now (timestamp e) (ttl e) \<Longrightarrow>
   getFromFile ns k False now st = (None, unlinkEntryFile ns k st)"
  by (simp add: getFromFile_def)

lemma getFromFile_absent:
  "readEntryFile ns k st = None \<or> readEntryFile ns k st = Some CorruptEntryFile \<Longrightarrow>
   getFromFile ns k acc now st = (None, st)"
  by (auto simp add: getFromFile_def)

lemma storeEntry_dir:
  "cacheDir st ns = Some dr \<Longrightarrow> cacheDir (storeEntry ns k entry bytes fp now st) ns \<noteq> None"
  by (simp add: storeEntry_def Let_def saveMetadata_def)

lemma storeEntry_no_eviction:
  assumes dir: "cacheDir st ns = Some dr"
    and small: "currentMemorySize st + bytes \<le> maxMemorySize"
  shows "memoryCache (storeEntry ns k entry bytes fp now st)
           = AList.update k (entry\<lparr>entry_size := bytes\<rparr>) (memoryCache st)"
    and "currentMemorySize (storeEntry ns k entry bytes fp now st) = currentMemorySize st + bytes"
  using small by (simp_all add: storeEntry_memory [OF dir] memoryInsert_no_eviction)

lemma storeEntry_other_file:
  "k' \<noteq> k \<Longrightarrow> readEntryFile ns k' (storeEntry ns k entry bytes fp now st) = readEntryFile ns k' st"
  by (cases "cacheDir st ns")
     (simp_all add: storeEntry_def Let_def saveMetadata_def readEntryFile_def)

lemma getFromFile_memory:
  assumes stored: "readEntryFile ns k st = Some (EntryFile e)"
    and fresh: "\<not> isExpired now (timestamp e) (ttl e) \<or> acc"
  shows "memoryCache (snd (getFromFile ns k acc now st))
           = memoryCache (memoryInsert k (e\<lparr>entry_size := byteLength (entryContent e)\<rparr>) st)"
    and "currentMemorySize (snd (getFromFile ns k acc now st))
           = currentMemorySize (memoryInsert k (e\<lparr>entry_size := byteLength (entryContent e)\<rparr>) st)"
  using assms by (auto simp add: getFromFile_def Let_def split: option.splits)

lemma getFromFile_dir:
  "cacheDir st ns \<noteq> None \<Longrightarrow> cacheDir (snd (getFromFile ns' k acc now st)) ns \<noteq> None"
  by (auto simp add: getFromFile_def Let_def saveMetadata_def unlinkEntryFile_def
      split: option.splits entry_file.splits)

lemma get_dir:
  assumes "cacheDir st ns \<noteq> None"
  shows "cacheDir (snd (get digest ns' ident acc now st)) ns \<noteq> None"
proof (cases "map_of (memoryCache st) (generateKey digest ns' ident)")
  case None
  then show ?thesis using assms by (simp only: get_memory_miss getFromFile_dir not_False_eq_True)
next
  case (Some m)
  let ?s = "st\<lparr>memoryCache := AList.delete (generateKey digest ns' ident) (memoryCache st),
               currentMemorySize := currentMemorySize st - entry_size m\<rparr>"
  have dir: "cacheDir ?s ns \<noteq> None" using assms by simp
  show ?thesis
  proof (cases "\<not> isExpired now (timestamp m) (ttl m) \<or> acc")
    case True
    then show ?thesis using get_memory_hit [OF Some True] assms by simp
  next
    case False
    then have "get digest ns' ident acc now st
        = getFromFile ns' (generateKey digest ns' ident) acc now ?s"
      using Some by (simp add: get_def Let_def)
    then show ?thesis using getFromFile_dir [OF dir] by simp
  qed
qed


subsection \<open>An entry held by the tiers\<close>

lemma storeEntry_holds:
  assumes dir: "cacheDir st ns = Some dr"
  shows "holdsEntry (storeEntry ns k entry bytes fp now st) ns k (timestamp entry) (ttl entry) (data entry)"
proof -
  let ?st' = "storeEntry ns k entry bytes fp now st"
  have onDisk: "readEntryFile ns k ?st' = Some (EntryFile entry)"
    by (rule storeEntry_disk(1) [OF dir])
  have "map_of (memoryCache ?st') k = None
     \<or> map_of (memoryCache ?st') k = Some (entry\<lparr>entry_size := bytes\<rparr>)"
    unfolding storeEntry_memory(1) [OF dir] by (rule memoryInsert_lookup)
  then show ?thesis using onDisk by (auto simp add: holdsEntry_def)
qed

lemma set_cache_holds:
  assumes tree: "jsonTree (fst d) {} (snd d) = Inr tree"
    and dir: "cacheDir st ns = Some dr"
  shows "holdsEntry (projr (set_cache digest ns ident d ttlOption now st)) ns
           (generateKey digest ns ident) now (effectiveTtl ttlOption) tree"
  using storeEntry_holds [OF dir, of "generateKey digest ns ident"
      "\<lparr>data = tree, timestamp = now, ttl = effectiveTtl ttlOption, entry_size = 0,
        key = generateKey digest ns ident\<rparr>"]
  by (simp add: set_cache_stores [OF tree])

lemma isExpired_iff: "isExpired now t0 d \<longleftrightarrow> t0 + d < now"
  by (auto simp add: isExpired_def)

lemma holdsEntry_hit:
  assumes held: "holdsEntry st ns (generateKey digest ns ident) t0 d v"
    and inside: "now \<le> t0 + d"
  shows "fst (get digest ns ident acc now st) = Some v"
proof (cases "map_of (memoryCache st) (generateKey digest ns ident)")
  case None
  then obtain f where f: "readEntryFile ns (generateKey digest ns ident) st = Some (EntryFile f)"
    "timestamp f = t0" "ttl f = d" "data f = v"
    using held by (auto simp add: holdsEntry_def split: option.splits entry_file.splits)
  have "\<not> isExpired now (timestamp f) (ttl f)" using inside f by (simp add: isExpired_iff)
  then show ?thesis
    using get_memory_miss [OF None] getFromFile_hit [OF f(1), of now acc] f by simp
next
  case (Some m)
  then have m: "timestamp m = t0" "ttl m = d" "data m = v"
    using held by (auto simp add: holdsEntry_def)
  have "\<not> isExpired now (timestamp m) (ttl m)" using inside m by (simp add: isExpired_iff)
  then show ?thesis using get_memory_hit [OF Some, of now acc] m by simp
qed

lemma getFromFile_stale:
  assumes times: "\<And>f. readEntryFile ns k st = Some (EntryFile f) \<Longrightarrow> isExpired now (timestamp f) (ttl f)"
  shows "fst (getFromFile ns k False now st) = None"
proof (cases "readEntryFile ns k st")
  case None
  then show ?thesis using getFromFile_absent [of ns k st] by simp
next
  case (Some stored)
  show ?thesis
  proof (cases stored)
    case CorruptEntryFile
    then show ?thesis using getFromFile_absent [of ns k st] Some by simp
  next
    case (EntryFile f)
    then show ?thesis
      using getFromFile_expired [of ns k st f now] times Some by simp
  qed
qed

lemma holdsEntry_miss:
  assumes held: "holdsEntry st ns (generateKey digest ns ident) t0 d v"
    and after: "t0 + d < now"
  shows "fst (get digest ns ident False now st) = None"
proof (cases "map_of (memoryCache st) (generateKey digest ns ident)")
  case None
  have "\<And>f. readEntryFile ns (generateKey digest ns ident) st = Some (EntryFile f)
          \<Longrightarrow> isExpired now (timestamp f) (ttl f)"
    using held None after by (auto simp add: holdsEntry_def isExpired_iff)
  then show ?thesis using get_memory_miss [OF None] getFromFile_stale by simp
next
  case (Some m)
  let ?s = "st\<lparr>memoryCache := AList.delete (generateKey digest ns ident) (memoryCache st),
               currentMemorySize := currentMemorySize st - entry_size m\<rparr>"
  have m: "timestamp m = t0" "ttl m = d"
    using held Some by (auto simp add: holdsEntry_def)
  have "\<And>f. readEntryFile ns (generateKey digest ns ident) ?s = Some (EntryFile f)
          \<Longrightarrow> isExpired now (timestamp f) (ttl f)"
    using held Some after by (auto simp add: holdsEntry_def isExpired_iff)
  then have "fst (getFromFile ns (generateKey digest ns ident) False now ?s) = None"
    by (rule getFromFile_stale)
  moreover have "isExpired now (timestamp m) (ttl m)" using after m by (simp add: isExpired_iff)
  ultimately show ?thesis using get_memory_expired [OF Some] by simp
qed


subsection \<open>Round trip in a namespace that has a directory\<close>

text \<open>
  For a payload that \<open>JSON.stringify\<close> unfolds to a tree and a namespace whose
  directory exists, \<open>set\<close> without options followed by a \<open>get\<close> at most 24 hours
  later returns that tree, whether the entry is still in the memory tier or was evicted
  and is read back from its file.
\<close>

lemma round_trip_with_directory:
  assumes tree: "jsonTree (fst d) {} (snd d) = Inr tree"
    and dir: "cacheDir st ns \<noteq> None"
    and soon: "now' - now \<le> defaultTtl"
  shows "\<exists>st'. set_cache digest ns ident d None now st = Inr st'
           \<and> fst (get digest ns ident acc now' st') = Some tree"
proof -
  let ?k = "generateKey digest ns ident"
  let ?entry = "\<lparr>data = tree, timestamp = now, ttl = effectiveTtl None, entry_size = 0, key = ?k\<rparr>"
  let ?bytes = "byteLength (entryContent ?entry)"
  let ?st' = "storeEntry ns ?k ?entry ?bytes (generateFingerprint digest d) now st"
  obtain dr where dr: "cacheDir st ns = Some dr" using dir by auto
  have res: "set_cache digest ns ident d None now st = Inr ?st'"
    using tree by (rule set_cache_stores)
  have fresh: "\<not> isExpired now' now (effectiveTtl None)"
    using soon by (simp add: isExpired_def effectiveTtl_def)
  have onDisk: "readEntryFile ns ?k ?st' = Some (EntryFile ?entry)"
    by (rule storeEntry_disk(1) [OF dr])
  have mem: "map_of (memoryCache ?st') ?k = None
     \<or> map_of (memoryCache ?st') ?k = Some (?entry\<lparr>entry_size := ?bytes\<rparr>)"
    unfolding storeEntry_memory(1) [OF dr] by (rule memoryInsert_lookup)
  have "fst (get digest ns ident acc now' ?st') = Some tree"
  proof (cases "map_of (memoryCache ?st') ?k")
    case None
    then have "get digest ns ident acc now' ?st' = getFromFile ns ?k acc now' ?st'"
      by (rule get_memory_miss)
    then show ?thesis using getFromFile_hit [OF onDisk, of now' acc] fresh by simp
  next
    case (Some m)
    then have m: "m = ?entry\<lparr>entry_size := ?bytes\<rparr>" using mem by simp
    show ?thesis using get_memory_hit [OF Some, of now' acc] fresh by (simp add: m)
  qed
  with res show ?thesis by blast
qed


subsection \<open>The namespace branch of \<open>invalidate\<close>\<close>

lemma purgeLoop_keeps:
  "\<forall>k\<in>set ks. k \<noteq> [] \<Longrightarrow> \<forall>p\<in>set (memoryCache st). length (fst p) \<noteq> 1 \<Longrightarrow>
   purgeLoop ns ks st = (None, st)"
proof (induction ks)
  case Nil
  show ?case by simp
next
  case (Cons k ks)
  then obtain c rest where k: "k = c # rest" by (cases k) auto
  have "[c] \<notin> fst ` set (memoryCache st)" using Cons.prems(2) by force
  then have "st\<lparr>memoryCache := AList.delete [c] (memoryCache st)\<rparr> = st" by simp
  then show ?case using Cons by (simp add: k)
qed

lemma invalidate_namespace_keeps_memory:
  assumes "\<forall>p\<in>set (memoryCache st). 1 < length (fst p)"
  shows "invalidate digest ns None st =
    (None, if cacheDir st ns \<noteq> None then st\<lparr>cacheDir := (cacheDir st)(ns \<mapsto> emptyDirectory)\<rparr>
           else st)"
proof -
  have "\<forall>k\<in>set (map fst (memoryCache st)). k \<noteq> []" "\<forall>p\<in>set (memoryCache st). length (fst p) \<noteq> 1"
    using assms by auto
  then show ?thesis
    by (simp add: invalidate_def Let_def purgeLoop_keeps)
qed


subsection \<open>The sweep of one namespace\<close>

lemma update_fresh_key: "k \<notin> fst ` set al \<Longrightarrow> AList.update k v al = al @ [(k, v)]"
  by (induction al) auto

lemma unlinkEntryFile_dir:
  "(cacheDir (unlinkEntryFile ns k st) ns' = None) = (cacheDir st ns' = None)"
  by (simp add: unlinkEntryFile_def split: option.splits)

lemma unlinkAll_effect:
  "readEntryFile ns' k' (unlinkAll ns ks st) =
     (if ns' = ns \<and> k' \<in> set ks then None else readEntryFile ns' k' st)"
  "metadataDocument (unlinkAll ns ks st) ns' = metadataDocument st ns'"
  "memoryCache (unlinkAll ns ks st) = memoryCache st"
  "currentMemorySize (unlinkAll ns ks st) = currentMemorySize st"
  "(cacheDir (unlinkAll ns ks st) ns' = None) = (cacheDir st ns' = None)"
proof (induction ks arbitrary: st)
  case Nil
  {
    case 1 show ?case by simp
  next
    case 2 show ?case by simp
  next
    case 3 show ?case by simp
  next
    case 4 show ?case by simp
  next
    case 5 show ?case by simp
  }
next
  case (Cons k ks)
  {
    case 1 show ?case by (auto simp add: Cons.IH unlinkEntryFile_entries)
  next
    case 2 show ?case by (simp add: Cons.IH)
  next
    case 3 show ?case by (simp add: Cons.IH)
  next
    case 4 show ?case by (simp add: Cons.IH)
  next
    case 5 show ?case by (simp add: Cons.IH unlinkEntryFile_dir)
  }
qed

lemma cleanupLoop_effect:
  "distinct (map fst recs) \<Longrightarrow> fst ` set recs \<inter> fst ` set updated = {} \<Longrightarrow>
   cleanupLoop ns now recs updated removed st =
     (updated @ filter (\<lambda>p. \<not> expiredRecord now p) recs,
      removed + length (filter (expiredRecord now) recs),
      unlinkAll ns (map fst (filter (expiredRecord now) recs)) st)"
proof (induction recs arbitrary: updated removed st)
  case Nil
  show ?case by simp
next
  case (Cons p recs)
  obtain k e where p: "p = (k, e)" by (cases p)
  have d: "distinct (map fst recs)" using Cons.prems(1) by simp
  show ?case
  proof (cases "expiredRecord now p")
    case True
    have "fst ` set recs \<inter> fst ` set updated = {}" using Cons.prems(2) by auto
    from Cons.IH [OF d this] True show ?thesis
      by (simp add: p expiredRecord_def)
  next
    case False
    have fresh: "k \<notin> fst ` set updated" using Cons.prems(2) by (auto simp add: p)
    have "fst ` set recs \<inter> fst ` set (updated @ [(k, e)]) = {}"
      using Cons.prems by (auto simp add: p)
    from Cons.IH [OF d this] False show ?thesis
      by (simp add: p expiredRecord_def update_fresh_key [OF fresh])
  qed
qed

lemma loadMetadata_nonempty_dir: "loadMetadata ns st \<noteq> [] \<Longrightarrow> cacheDir st ns \<noteq> None"
  by (auto simp add: loadMetadata_def metadataDocument_def split: option.splits)

lemma loadMetadata_document:
  "metadataDocument st ns = metadataDocument st' ns \<Longrightarrow> loadMetadata ns st = loadMetadata ns st'"
  by (simp add: loadMetadata_def)

lemma cleanupNamespace_effect:
  assumes d: "distinct (map fst (loadMetadata ns st))"
  shows "loadMetadata ns (cleanupNamespace now ns st)
           = filter (\<lambda>p. \<not> expiredRecord now p) (loadMetadata ns st)"
    and "readEntryFile ns k (cleanupNamespace now ns st)
           = (if k \<in> fst ` set (filter (expiredRecord now) (loadMetadata ns st)) then None
              else readEntryFile ns k st)"
proof -
  let ?recs = "loadMetadata ns st"
  let ?gone = "filter (expiredRecord now) ?recs"
  let ?kept = "filter (\<lambda>p. \<not> expiredRecord now p) ?recs"
  let ?st1 = "unlinkAll ns (map fst ?gone) st"
  have loop: "cleanupLoop ns now ?recs [] 0 st = (?kept, length ?gone, ?st1)"
    using cleanupLoop_effect [OF d, of "[]" ns now 0 st] by simp
  show "loadMetadata ns (cleanupNamespace now ns st) = ?kept"
  proof (cases "?gone = []")
    case True
    then have "?kept = ?recs" by (simp add: filter_empty_conv)
    moreover have "loadMetadata ns ?st1 = ?recs"
      by (rule loadMetadata_document) (simp add: unlinkAll_effect)
    ultimately show ?thesis using True by (simp add: cleanupNamespace_def loop)
  next
    case False
    then have "?recs \<noteq> []" by auto
    then have "cacheDir st ns \<noteq> None" by (rule loadMetadata_nonempty_dir)
    then have "cacheDir ?st1 ns \<noteq> None" by (simp add: unlinkAll_effect)
    then have "loadMetadata ns (saveMetadata ns ?kept ?st1) = ?kept"
      by (simp add: loadMetadata_def saveMetadata_document)
    then show ?thesis using False by (simp add: cleanupNamespace_def loop)
  qed
  show "readEntryFile ns k (cleanupNamespace now ns st)
           = (if k \<in> fst ` set ?gone then None else readEntryFile ns k st)"
    by (cases "?gone = []") (simp_all add: cleanupNamespace_def loop unlinkAll_effect)
qed

lemma cleanupLoop_frame:
  "metadataDocument (snd (snd (cleanupLoop ns now recs updated removed st))) ns'
     = metadataDocument st ns'"
  "ns' \<noteq> ns \<Longrightarrow>
   readEntryFile ns' k (snd (snd (cleanupLoop ns now recs updated removed st)))
     = readEntryFile ns' k st"
  "memoryCache (snd (snd (cleanupLoop ns now recs updated removed st))) = memoryCache st"
  "currentMemorySize (snd (snd (cleanupLoop ns now recs updated removed st))) = currentMemorySize st"
  by (induction ns now recs updated removed st rule: cleanupLoop.induct)
     (simp_all add: unlinkEntryFile_entries)

lemma cleanupNamespace_frame:
  assumes other: "ns' \<noteq> ns"
  shows "loadMetadata ns' (cleanupNamespace now ns st) = loadMetadata ns' st"
    and "readEntryFile ns' k (cleanupNamespace now ns st) = readEntryFile ns' k st"
proof -
  obtain updated removed st1 where loop:
    "cleanupLoop ns now (loadMetadata ns st) [] 0 st = (updated, removed, st1)"
    by (cases "cleanupLoop ns now (loadMetadata ns st) [] 0 st") auto
  have st1: "metadataDocument st1 ns' = metadataDocument st ns'"
    "readEntryFile ns' k st1 = readEntryFile ns' k st"
    using cleanupLoop_frame(1) [of ns now "loadMetadata ns st" "[]" 0 st ns']
      cleanupLoop_frame(2) [OF other, of k now "loadMetadata ns st" "[]" 0 st]
    by (simp_all add: loop)
  have "metadataDocument (cleanupNamespace now ns st) ns' = metadataDocument st ns'"
    using other st1(1) by (simp add: cleanupNamespace_def loop saveMetadata_document)
  then show "loadMetadata ns' (cleanupNamespace now ns st) = loadMetadata ns' st"
    by (rule loadMetadata_document)
  show "readEntryFile ns' k (cleanupNamespace now ns st) = readEntryFile ns' k st"
    using st1(2) by (simp add: cleanupNamespace_def loop)
qed

lemma cleanupNamespace_memory:
  "memoryCache (cleanupNamespace now ns st) = memoryCache st"
  "currentMemorySize (cleanupNamespace now ns st) = currentMemorySize st"
proof -
  obtain updated removed st1 where loop:
    "cleanupLoop ns now (loadMetadata ns st) [] 0 st = (updated, removed, st1)"
    by (cases "cleanupLoop ns now (loadMetadata ns st) [] 0 st") auto
  have "memoryCache st1 = memoryCache st" "currentMemorySize st1 = currentMemorySize st"
    using cleanupLoop_frame(3,4) [of ns now "loadMetadata ns st" "[]" 0 st]
    by (simp_all add: loop)
  then show "memoryCache (cleanupNamespace now ns st) = memoryCache st"
    and "currentMemorySize (cleanupNamespace now ns st) = currentMemorySize st"
    by (simp_all add: cleanupNamespace_def loop)
qed

text \<open>The sweep over a list of distinct namespaces, seen from one namespace.\<close>

lemma cleanup_fold:
  assumes "distinct nss"
  shows "ns \<notin> set nss \<Longrightarrow>
           loadMetadata ns (fold (cleanupNamespace now) nss st) = loadMetadata ns st
           \<and> (\<forall>k. readEntryFile ns k (fold (cleanupNamespace now) nss st) = readEntryFile ns k st)"
    and "ns \<in> set nss \<Longrightarrow> distinct (map fst (loadMetadata ns st)) \<Longrightarrow>
           loadMetadata ns (fold (cleanupNamespace now) nss st)
             = filter (\<lambda>p. \<not> expiredRecord now p) (loadMetadata ns st)
           \<and> (\<forall>k. readEntryFile ns k (fold (cleanupNamespace now) nss st)
                 = (if k \<in> fst ` set (filter (expiredRecord now) (loadMetadata ns st)) then None
                    else readEntryFile ns k st))"
  using assms
proof (induction nss arbitrary: st)
  case Nil
  {
    case 1 show ?case by simp
  next
    case 2 then show ?case by simp
  }
next
  case (Cons a nss)
  {
    case 1
    then have "ns \<noteq> a" "ns \<notin> set nss" "distinct nss" by auto
    then show ?case
      using Cons.IH(1) [of "cleanupNamespace now a st"]
      by (simp add: cleanupNamespace_frame)
  next
    case 2
    show ?case
    proof (cases "ns = a")
      case True
      then have "ns \<notin> set nss" "distinct nss" using 2 by auto
      then show ?thesis
        using Cons.IH(1) [of "cleanupNamespace now a st"] 2(2) True
        by (simp add: cleanupNamespace_effect)
    next
      case False
      then have "ns \<in> set nss" "distinct nss" using 2 by auto
      moreover have "distinct (map fst (loadMetadata ns (cleanupNamespace now a st)))"
        using 2(2) False by (simp add: cleanupNamespace_frame)
      ultimately show ?thesis
        using Cons.IH(2) [of "cleanupNamespace now a st"] False
        by (simp add: cleanupNamespace_frame)
    qed
  }
qed


subsection \<open>Operations on a namespace without records\<close>

lemma getFromFile_no_records:
  "loadMetadata ns st = [] \<Longrightarrow>
   metadataDocument (snd (getFromFile ns k acc now st)) ns' = metadataDocument st ns'"
  by (auto simp add: getFromFile_def Let_def split: option.splits entry_file.splits)

lemma get_no_records:
  "loadMetadata ns st = [] \<Longrightarrow>
   metadataDocument (snd (get digest ns ident acc now st)) ns' = metadataDocument st ns'"
  by (auto simp add: get_def Let_def getFromFile_no_records split: option.splits)

lemma getFromFile_result:
  "readEntryFile ns k s = readEntryFile ns k s' \<Longrightarrow>
   fst (getFromFile ns k acc now s) = fst (getFromFile ns k acc now s')"
  by (simp add: getFromFile_def Let_def split: option.splits entry_file.splits)

lemma get_result:
  assumes "memoryCache s = memoryCache s'"
    and "\<And>k. readEntryFile ns k s = readEntryFile ns k s'"
  shows "fst (get digest ns ident acc now s) = fst (get digest ns ident acc now s')"
proof -
  have "fst (getFromFile ns k a now (s\<lparr>memoryCache := m, currentMemorySize := c\<rparr>))
      = fst (getFromFile ns k a now (s'\<lparr>memoryCache := m', currentMemorySize := c'\<rparr>))"
    for k a m c m' c'
    by (rule getFromFile_result) (simp add: assms(2))
  moreover have "fst (getFromFile ns k a now s) = fst (getFromFile ns k a now s')" for k a
    by (rule getFromFile_result) (simp add: assms(2))
  ultimately show ?thesis
    using assms(1) by (simp add: get_def Let_def split: option.splits)
qed

lemma loadMetadata_empty_document:
  assumes "loadMetadata ns st = []"
  shows "loadMetadata ns' (saveMetadata ns [] st) = loadMetadata ns' st"
  using assms
  by (auto simp add: loadMetadata_def saveMetadata_document split: option.splits metadata_file.splits)

lemma storeEntry_empty_document:
  assumes "loadMetadata ns st = []"
  shows "storeEntry ns k entry bytes fp now (saveMetadata ns [] st)
       = storeEntry ns k entry bytes fp now st"
proof (cases "cacheDir st ns")
  case None
  then show ?thesis by (simp add: saveMetadata_def)
next
  case (Some dr)
  then show ?thesis
    using assms
    by (simp add: storeEntry_def Let_def saveMetadata_def loadMetadata_def metadataDocument_def)
qed

lemma status_empty_document:
  assumes "loadMetadata ns st = []"
  shows "getCacheStatus nsOption now (saveMetadata ns [] st) = getCacheStatus nsOption now st"
  by (simp add: getCacheStatus_def namespaceStatus_def loadMetadata_empty_document [OF assms])


subsection \<open>The states of the examples\<close>

lemma freshStart_state:
  "cacheDir freshStart ''grind75'' = Some emptyDirectory"
  "memoryCache freshStart = []"
  "currentMemorySize freshStart = 0"
  by (simp_all add: freshStart_def newCacheManager_def ensureCacheDirectory_def
      knownNamespaces_def)

lemma value42_tree: "jsonTree (fst value42) {} (snd value42) = Inr (JObj [(''value'', JNum 42)])"
  by (simp add: value42_def)

lemma keyA_key: "generateKey md5Examples ''grind75'' ''key-a'' = keyA"
  by (simp add: generateKey_def md5Examples_def keyA_def)

lemma example_bytes:
  "byteLength (entryContent \<lparr>data = JObj [(''value'', JNum 42)], timestamp = 1000,
      ttl = 86400000, entry_size = 0, key = keyA\<rparr>) = 141"
  "byteLength (entryContent \<lparr>data = JObj [(''value'', JNum 42)], timestamp = 2000,
      ttl = 86400000, entry_size = 0, key = keyA\<rparr>) = 141"
  by (simp_all add: byteLength_def entryContent_def entryJson_def show_int_small withSign_def
      digit_char_def quote_def escape_char_def dquote_def newline_def keyA_def)

lemma afterSet_state:
  "memoryCache afterSet =
     [(keyA, \<lparr>data = JObj [(''value'', JNum 42)], timestamp = 1000, ttl = 86400000,
              entry_size = 141, key = keyA\<rparr>)]"
  "currentMemorySize afterSet = 141"
  "cacheDir afterSet ''grind75'' \<noteq> None"
  using storeEntry_no_eviction [OF freshStart_state(1), of 141 keyA
      "\<lparr>data = JObj [(''value'', JNum 42)], timestamp = 1000, ttl = 86400000,
        entry_size = 0, key = keyA\<rparr>"]
    storeEntry_dir [OF freshStart_state(1)]
  by (simp_all add: afterSet_def set_cache_stores [OF value42_tree] keyA_key effectiveTtl_def
      defaultTtl_def example_bytes freshStart_state maxMemorySize_def)


lemma coldStart_state:
  "map_of (memoryCache coldStart) (generateKey md5Examples ''grind75'' ''key-a'') = None"
  "readEntryFile ''grind75'' (generateKey md5Examples ''grind75'' ''key-a'') coldStart
     = Some (EntryFile staleEntry)"
  "loadMetadata ''grind75'' coldStart = [(keyA, staleRecord)]"
  "isExpired 5000 (timestamp staleEntry) (ttl staleEntry)"
  by (simp_all add: coldStart_def newCacheManager_def ensureCacheDirectory_def
      knownNamespaces_def readEntryFile_def loadMetadata_def metadataDocument_def keyA_key
      staleEntry_def isExpired_def)


lemma sweepStart_state:
  "loadMetadata ''grind75'' sweepStart =
     [(keyB, recordAt keyB 3000 1000), (keyC, recordAt keyC 1000 2000),
      (keyA, recordAt keyA 4000 86400000)]"
  "readEntryFile ''grind75'' keyA sweepStart = Some (EntryFile (entryAt keyA 4000 86400000))"
  by (simp_all add: sweepStart_def newCacheManager_def ensureCacheDirectory_def
      knownNamespaces_def loadMetadata_def metadataDocument_def readEntryFile_def)

lemma example_keys: "keyA \<noteq> keyB" "keyA \<noteq> keyC" "keyB \<noteq> keyC"
  by (simp_all add: keyA_def keyB_def keyC_def)


text \<open>
  The memory tier of \<open>warm\<close>: the two entries stored by \<open>set\<close> and the entry read
  from its file, 80000359 bytes in all, and what the insertion of the entry \<open>c\<close> of
  twenty-five million letters makes of it.
\<close>

lemma lettersEntry_size:
  "(lettersEntry ident n t0 bytes)\<lparr>entry_size := bytes'\<rparr> = lettersEntry ident n t0 bytes'"
  by (simp add: lettersEntry_def)

lemma filler_tree: "jsonTree (fst (filler n)) {} (snd (filler n)) = Inr (JStr (letters n))"
  by (simp add: filler_def)

lemma letters_keys:
  "generateKey md5Letters ''grind75'' ''a'' = ''grind75_0cc175b9c0f1b6a831c399e269772661''"
  "generateKey md5Letters ''grind75'' ''b'' = ''grind75_92eb5ffee6ae2fec3ad71c777531578f''"
  "generateKey md5Letters ''grind75'' ''c'' = ''grind75_4a8a08f09d37b73795649038408b5f33''"
  "generateKey md5Letters ''grind75'' ''z'' = ''grind75_fbade9e36a3f36d3d676c1b808451dd7''"
  by (simp_all add: generateKey_def md5Letters_def)

lemma letters_bytes:
  "byteLength (entryContent (lettersEntry ''a'' 35000000 10 0)) = 35000120"
  "byteLength (entryContent (lettersEntry ''b'' 35000000 20 0)) = 35000120"
  "byteLength (entryContent (lettersEntry ''z'' 10000000 5 0)) = 10000119"
  "byteLength (entryContent (lettersEntry ''c'' 25000000 40 0)) = 25000120"
  by (simp_all add: lettersEntry_def entryContent_def entryJson_def quote_letters
      byteLength_append byteLength_Cons byteLength_Nil byteLength_letters
      show_int_small withSign_def digit_char_def generateKey_def md5Letters_def
      quote_def [of "c # s" for c s]
      escape_char_def dquote_def newline_def)

lemma warm_state:
  "memoryCache warm =
     [(generateKey md5Letters ''grind75'' ''a'', lettersEntry ''a'' 35000000 10 35000120),
      (generateKey md5Letters ''grind75'' ''b'', lettersEntry ''b'' 35000000 20 35000120),
      (generateKey md5Letters ''grind75'' ''z'', lettersEntry ''z'' 10000000 5 10000119)]"
  "currentMemorySize warm = 80000359"
proof -
  let ?ka = "generateKey md5Letters ''grind75'' ''a''"
  let ?kb = "generateKey md5Letters ''grind75'' ''b''"
  let ?kz = "generateKey md5Letters ''grind75'' ''z''"
  let ?s0 = "newCacheManager oldDisk"
  let ?s1 = "storeEntry ''grind75'' ?ka (lettersEntry ''a'' 35000000 10 0) 35000120
               (generateFingerprint md5Letters (filler 35000000)) 10 ?s0"
  let ?s2 = "storeEntry ''grind75'' ?kb (lettersEntry ''b'' 35000000 20 0) 35000120
               (generateFingerprint md5Letters (filler 35000000)) 20 ?s1"
  let ?s3 = "snd (get md5Letters ''grind75'' ''z'' False 30 ?s2)"
  have set1: "set_cache md5Letters ''grind75'' ''a'' (filler 35000000) None 10 ?s0 = Inr ?s1"
    using letters_bytes(1)
    by (simp add: set_cache_stores [OF filler_tree] effectiveTtl_def defaultTtl_def lettersEntry_def)
  have set2: "set_cache md5Letters ''grind75'' ''b'' (filler 35000000) None 20 ?s1 = Inr ?s2"
    using letters_bytes(2)
    by (simp add: set_cache_stores [OF filler_tree] effectiveTtl_def defaultTtl_def lettersEntry_def)
  have warm: "warm = ?s3"
    by (simp add: warm_def warmOps_def set1 set2)
  obtain d0 where d0: "cacheDir ?s0 ''grind75'' = Some d0"
    by (simp add: newCacheManager_def ensureCacheDirectory_def knownNamespaces_def oldDisk_def)
  have file0: "readEntryFile ''grind75'' ?kz ?s0 = Some (EntryFile (lettersEntry ''z'' 10000000 5 0))"
    by (simp add: readEntryFile_def newCacheManager_def ensureCacheDirectory_def knownNamespaces_def
        oldDisk_def)
  have m0: "memoryCache ?s0 = []" "currentMemorySize ?s0 = 0"
    by (simp_all add: newCacheManager_def)
  have m1: "memoryCache ?s1 = [(?ka, lettersEntry ''a'' 35000000 10 35000120)]"
       "currentMemorySize ?s1 = 35000120"
    using storeEntry_no_eviction [OF d0, of 35000120 ?ka "lettersEntry ''a'' 35000000 10 0"]
    by (simp_all add: m0 maxMemorySize_def lettersEntry_size)
  obtain d1 where d1: "cacheDir ?s1 ''grind75'' = Some d1"
    using storeEntry_dir [OF d0] by blast
  have small2: "currentMemorySize ?s1 + 35000120 \<le> maxMemorySize"
    by (simp add: m1 maxMemorySize_def)
  note e2 = storeEntry_no_eviction [OF d1 small2, of ?kb "lettersEntry ''b'' 35000000 20 0"
      "generateFingerprint md5Letters (filler 35000000)" 20]
  have m2: "memoryCache ?s2 = [(?ka, lettersEntry ''a'' 35000000 10 35000120),
                              (?kb, lettersEntry ''b'' 35000000 20 35000120)]"
       "currentMemorySize ?s2 = 70000240"
    unfolding e2 lettersEntry_size m1 by (simp_all add: letters_keys)
  have file2: "readEntryFile ''grind75'' ?kz ?s2 = Some (EntryFile (lettersEntry ''z'' 10000000 5 0))"
    using file0 by (simp add: storeEntry_other_file letters_keys)
  have miss: "map_of (memoryCache ?s2) ?kz = None"
    unfolding m2 by (simp add: letters_keys)
  have fresh: "\<not> isExpired 30 (timestamp (lettersEntry ''z'' 10000000 5 0))
                 (ttl (lettersEntry ''z'' 10000000 5 0)) \<or> False"
    by (simp add: isExpired_def lettersEntry_def)
  have s3: "?s3 = snd (getFromFile ''grind75'' ?kz False 30 ?s2)"
    using get_memory_miss [OF miss] by simp
  have ins: "memoryInsert ?kz (lettersEntry ''z'' 10000000 5 10000119) ?s2
      = ?s2\<lparr>memoryCache := AList.update ?kz (lettersEntry ''z'' 10000000 5 10000119) (memoryCache ?s2),
             currentMemorySize := currentMemorySize ?s2 + entry_size (lettersEntry ''z'' 10000000 5 10000119)\<rparr>"
    by (rule memoryInsert_no_eviction) (simp add: m2(2) maxMemorySize_def lettersEntry_def [of "''z''"])
  have promoted: "(lettersEntry ''z'' 10000000 5 0)
        \<lparr>entry_size := byteLength (entryContent (lettersEntry ''z'' 10000000 5 0))\<rparr>
      = lettersEntry ''z'' 10000000 5 10000119"
    unfolding letters_bytes(3) by (rule lettersEntry_size)
  show "memoryCache warm =
     [(?ka, lettersEntry ''a'' 35000000 10 35000120),
      (?kb, lettersEntry ''b'' 35000000 20 35000120),
      (?kz, lettersEntry ''z'' 10000000 5 10000119)]"
    unfolding warm s3 getFromFile_memory(1) [OF file2 fresh] promoted ins
    by (simp add: m2(1)) (simp add: letters_keys)
  show "currentMemorySize warm = 80000359"
    unfolding warm s3 getFromFile_memory(2) [OF file2 fresh] promoted ins
    by (simp add: m2(2) lettersEntry_def [of "''z''"])
qed

lemma warm_insert:
  "memoryCache (memoryInsert (generateKey md5Letters ''grind75'' ''c'')
      (lettersEntry ''c'' 25000000 40 25000120) warm)
     = [(generateKey md5Letters ''grind75'' ''b'', lettersEntry ''b'' 35000000 20 35000120),
        (generateKey md5Letters ''grind75'' ''c'', lettersEntry ''c'' 25000000 40 25000120)]"
  "currentMemorySize (memoryInsert (generateKey md5Letters ''grind75'' ''c'')
      (lettersEntry ''c'' 25000000 40 25000120) warm) = 60000240"
proof -
  let ?st = "\<lparr>cacheDir = Map.empty, memoryCache = memoryCache warm,
              currentMemorySize = currentMemorySize warm\<rparr>"
  have eq: "memoryCache warm = memoryCache ?st" "currentMemorySize warm = currentMemorySize ?st"
    by simp_all
  show "memoryCache (memoryInsert (generateKey md5Letters ''grind75'' ''c'')
      (lettersEntry ''c'' 25000000 40 25000120) warm)
     = [(generateKey md5Letters ''grind75'' ''b'', lettersEntry ''b'' 35000000 20 35000120),
        (generateKey md5Letters ''grind75'' ''c'', lettersEntry ''c'' 25000000 40 25000120)]"
    unfolding memoryInsert_memory_cong(1) [OF eq]
    by (simp add: warm_state memoryInsert_def evictMemoryCache_def maxMemorySize_def
        letters_keys lettersEntry_def)
  show "currentMemorySize (memoryInsert (generateKey md5Letters ''grind75'' ''c'')
      (lettersEntry ''c'' 25000000 40 25000120) warm) = 60000240"
    unfolding memoryInsert_memory_cong(2) [OF eq]
    by (simp add: warm_state memoryInsert_def evictMemoryCache_def maxMemorySize_def
        letters_keys lettersEntry_def)
qed

lemma warm_dir: "cacheDir warm ''grind75'' \<noteq> None"
proof -
  let ?s0 = "newCacheManager oldDisk"
  have d0: "cacheDir ?s0 ''grind75'' \<noteq> None"
    by (simp add: newCacheManager_def ensureCacheDirectory_def knownNamespaces_def oldDisk_def)
  have step: "cacheDir (perform md5Letters op st) ''grind75'' \<noteq> None"
    if "cacheDir st ''grind75'' \<noteq> None" for op st
  proof (cases op)
    case (SetOp ns ident d ttlOption now)
    show ?thesis
    proof (cases "jsonTree (fst d) {} (snd d)")
      case (Inl e)
      then show ?thesis using that SetOp by (simp add: set_cache_circular)
    next
      case (Inr tree)
      show ?thesis
        using that SetOp
        by (auto simp add: set_cache_stores [OF Inr] storeEntry_def Let_def saveMetadata_def
            split: option.splits)
    qed
  next
    case (GetOp ns ident acc now)
    then show ?thesis using that by (simp add: get_dir)
  qed
  show ?thesis
    unfolding warm_def warmOps_def by (simp only: fold_simps id_apply comp_apply) (intro step d0)
qed

subsection \<open>Circular payloads\<close>

text \<open>
  Claim C1 says that \<open>set\<close> completes without raising for every payload, an object
  that contains itself included, and gives it a fingerprint. The fingerprint is
  computed, for the object that is its own member and for the one that contains itself
  two levels down: \<open>safeStringify\<close> is total and prints the marker at the point of
  return.
  But \<open>JSON.stringify(entry, null, 2)\<close> stands before the \<open>try\<close>, and on such a payload
  it throws: \<open>set\<close> raises a \<open>TypeError\<close> to its caller, whatever the namespace, the
  identifier, the options, the instant and the state.
\<close>

theorem set_raises_on_circular_payload:
  "generateFingerprint digest selfContaining
     = digest (''{'' @ [dquote] @ ''self'' @ [dquote] @ '':'' @ [dquote] @ ''[Circular]'' @ [dquote] @ ''}'')
   \<and> set_cache digest namespace identifier selfContaining ttlOption now st = Inl TypeError
   \<and> generateFingerprint digest containedBelow
     = digest (''{'' @ [dquote] @ ''items'' @ [dquote] @ '':[{'' @ [dquote] @ ''parent'' @ [dquote]
               @ '':'' @ [dquote] @ ''[Circular]'' @ [dquote] @ ''}]}'')
   \<and> set_cache digest namespace identifier containedBelow ttlOption now st = Inl TypeError"
proof -
  have "jsonTree (fst selfContaining) {} (snd selfContaining) = Inl TypeError"
    by (simp add: selfContaining_def)
  moreover have "jsonTree (fst containedBelow) {} (snd containedBelow) = Inl TypeError"
    by (simp add: containedBelow_def)
  moreover have "safeStringify (fst selfContaining) {} (snd selfContaining)
      = ''{'' @ [dquote] @ ''self'' @ [dquote] @ '':'' @ [dquote] @ ''[Circular]'' @ [dquote] @ ''}''"
    by (simp add: selfContaining_def)
  moreover have "safeStringify (fst containedBelow) {} (snd containedBelow)
      = ''{'' @ [dquote] @ ''items'' @ [dquote] @ '':[{'' @ [dquote] @ ''parent'' @ [dquote]
               @ '':'' @ [dquote] @ ''[Circular]'' @ [dquote] @ ''}]}''"
    by (simp add: containedBelow_def)
  ultimately show ?thesis
    by (simp add: generateFingerprint_def set_cache_circular)
qed

subsection \<open>The eviction bound\<close>

text \<open>
  Claim C4. Let \<open>st\<close> be the state after any sequence of \<open>set\<close> and \<open>get\<close> from the
  start; its running total is at most \<open>maxMemorySize\<close>. Let the insertion of an entry
  (\<open>memoryInsert\<close>, the statements that \<open>set\<close> and \<open>get\<close> share; the size they insert
  is a byte length, so it is not negative) bring the total to \<open>occupied\<close>, above
  \<open>maxMemorySize\<close>, and let \<open>es\<close> be the entries of the map, the new one included, in
  the order of their timestamps. Then the eviction removes the \<open>n\<close> oldest entries,
  the first \<open>n\<close> of \<open>es\<close>, for an \<open>n\<close> of at least one: the memory tier keeps the
  other entries and the total is \<open>occupied\<close> less the sizes of the entries removed;
  before each removal the total was above 80 percent of \<open>maxMemorySize\<close>; and the
  eviction ends with a total of at most 80 percent of \<open>maxMemorySize\<close> or with every
  entry removed. So after the eviction the total is at most \<open>maxMemorySize\<close>; it is at
  most 80 percent of \<open>maxMemorySize\<close> unless the memory tier is empty; only resident
  entries were removed; and every entry removed is at most as recent as every entry
  kept.
\<close>

theorem eviction_bound:
  assumes reach: "st = fold (perform digest) ops (newCacheManager disk)"
    and size: "0 \<le> entry_size entry"
    and over: "maxMemorySize < currentMemorySize st + entry_size entry"
    and order: "es = sort_key (\<lambda>p. timestamp (snd p)) (AList.update k entry (memoryCache st))"
    and occupied: "occupied = currentMemorySize st + entry_size entry"
  shows "currentMemorySize st \<le> maxMemorySize
    \<and> (\<exists>n. 0 < n \<and> n \<le> length es
          \<and> memoryCache (memoryInsert k entry st)
              = filter (\<lambda>p. p \<notin> set (take n es)) (AList.update k entry (memoryCache st))
          \<and> currentMemorySize (memoryInsert k entry st) = occupied - sizes (take n es)
          \<and> (\<forall>m<n. 8 * maxMemorySize < 10 * (occupied - sizes (take m es)))
          \<and> (n = length es \<or> 10 * (occupied - sizes (take n es)) \<le> 8 * maxMemorySize))
    \<and> currentMemorySize (memoryInsert k entry st) \<le> maxMemorySize
    \<and> (10 * currentMemorySize (memoryInsert k entry st) \<le> 8 * maxMemorySize
         \<or> memoryCache (memoryInsert k entry st) = [])
    \<and> set (memoryCache (memoryInsert k entry st)) \<subseteq> set (AList.update k entry (memoryCache st))
    \<and> (\<forall>p\<in>set (AList.update k entry (memoryCache st)) - set (memoryCache (memoryInsert k entry st)).
          \<forall>q\<in>set (memoryCache (memoryInsert k entry st)). timestamp (snd p) \<le> timestamp (snd q))"
proof -
  let ?st1 = "st\<lparr>memoryCache := AList.update k entry (memoryCache st),
                  currentMemorySize := currentMemorySize st + entry_size entry\<rparr>"
  have inv: "memoryInvariant st"
    unfolding reach by (rule reachable_invariant) (rule newCacheManager_invariant)
  have after: "memoryInvariant (memoryInsert k entry st)"
    using inv size by (rule memoryInsert_invariant)
  have eq: "memoryInsert k entry st = evictMemoryCache ?st1"
    using over by (simp add: memoryInsert_def)
  have d1: "distinct (map fst (memoryCache ?st1))"
    using inv by (simp add: memoryInvariant_def distinct_update)
  have above: "8 * maxMemorySize < 10 * currentMemorySize ?st1"
    using over by (simp add: maxMemorySize_def)
  have nonempty: "memoryCache ?st1 \<noteq> []"
    using update_member [of k entry "memoryCache st"] by auto
  have es1: "es = sort_key (\<lambda>p. timestamp (snd p)) (memoryCache ?st1)"
    using order by simp
  have exact: "\<exists>n. 0 < n \<and> n \<le> length es
          \<and> memoryCache (memoryInsert k entry st)
              = filter (\<lambda>p. p \<notin> set (take n es)) (AList.update k entry (memoryCache st))
          \<and> currentMemorySize (memoryInsert k entry st) = occupied - sizes (take n es)
          \<and> (\<forall>m<n. 8 * maxMemorySize < 10 * (occupied - sizes (take m es)))
          \<and> (n = length es \<or> 10 * (occupied - sizes (take n es)) \<le> 8 * maxMemorySize)"
    using evictMemoryCache_prefix [OF d1 above nonempty es1] unfolding eq occupied by simp
  have "currentMemorySize st \<le> maxMemorySize"
    using inv by (simp add: memoryInvariant_def)
  moreover have "currentMemorySize (memoryInsert k entry st) \<le> maxMemorySize"
    using after by (simp add: memoryInvariant_def)
  moreover have "10 * currentMemorySize (memoryInsert k entry st) \<le> 8 * maxMemorySize
         \<or> memoryCache (memoryInsert k entry st) = []"
    unfolding eq using evictMemoryCache_effect(4) [OF d1] by blast
  moreover have "set (memoryCache (memoryInsert k entry st)) \<subseteq> set (AList.update k entry (memoryCache st))"
    unfolding eq using evictMemoryCache_effect(1) [OF d1] by simp
  moreover have "\<forall>p\<in>set (AList.update k entry (memoryCache st)) - set (memoryCache (memoryInsert k entry st)).
          \<forall>q\<in>set (memoryCache (memoryInsert k entry st)). timestamp (snd p) \<le> timestamp (snd q)"
    unfolding eq using evictMemoryCache_effect(3) [OF d1] by simp
  ultimately show ?thesis using exact by blast
qed


text \<open>
  The insertion of the entry \<open>c\<close> into \<open>warm\<close>, which \<^verbatim>\<open>set('grind75', 'c', ...)\<close> at
  the instant 40 does: the total of 105000479 is above \<open>maxMemorySize\<close>; the entry \<open>z\<close>,
  the oldest though the last one inserted, is removed, then the entry \<open>a\<close>; with
  60000240 the eviction ends, and \<open>b\<close> and \<open>c\<close> are kept.
\<close>

theorem eviction_bound_witness:
  "warm = fold (perform md5Letters) warmOps (newCacheManager oldDisk)
   \<and> 0 \<le> entry_size (lettersEntry ''c'' 25000000 40 25000120)
   \<and> currentMemorySize warm = 80000359
   \<and> maxMemorySize < currentMemorySize warm + entry_size (lettersEntry ''c'' 25000000 40 25000120)
   \<and> sort_key (\<lambda>p. timestamp (snd p))
        (AList.update (generateKey md5Letters ''grind75'' ''c'')
           (lettersEntry ''c'' 25000000 40 25000120) (memoryCache warm))
      = [(generateKey md5Letters ''grind75'' ''z'', lettersEntry ''z'' 10000000 5 10000119),
         (generateKey md5Letters ''grind75'' ''a'', lettersEntry ''a'' 35000000 10 35000120),
         (generateKey md5Letters ''grind75'' ''b'', lettersEntry ''b'' 35000000 20 35000120),
         (generateKey md5Letters ''grind75'' ''c'', lettersEntry ''c'' 25000000 40 25000120)]
   \<and> memoryCache (memoryInsert (generateKey md5Letters ''grind75'' ''c'')
        (lettersEntry ''c'' 25000000 40 25000120) warm)
      = [(generateKey md5Letters ''grind75'' ''b'', lettersEntry ''b'' 35000000 20 35000120),
         (generateKey md5Letters ''grind75'' ''c'', lettersEntry ''c'' 25000000 40 25000120)]
   \<and> currentMemorySize (memoryInsert (generateKey md5Letters ''grind75'' ''c'')
        (lettersEntry ''c'' 25000000 40 25000120) warm) = 60000240
   \<and> memoryCache (perform md5Letters (SetOp ''grind75'' ''c'' (filler 25000000) None 40) warm)
      = [(generateKey md5Letters ''grind75'' ''b'', lettersEntry ''b'' 35000000 20 35000120),
         (generateKey md5Letters ''grind75'' ''c'', lettersEntry ''c'' 25000000 40 25000120)]
   \<and> currentMemorySize (memoryInsert (generateKey md5Letters ''grind75'' ''c'')
        (lettersEntry ''c'' 25000000 40 25000120) warm) \<le> maxMemorySize"
proof -
  let ?kc = "generateKey md5Letters ''grind75'' ''c''"
  let ?ec = "lettersEntry ''c'' 25000000 40 25000120"
  have size: "0 \<le> entry_size ?ec" by (simp add: lettersEntry_def)
  have over: "maxMemorySize < currentMemorySize warm + entry_size ?ec"
    by (simp add: warm_state maxMemorySize_def lettersEntry_def)
  have order: "sort_key (\<lambda>p. timestamp (snd p)) (AList.update ?kc ?ec (memoryCache warm))
      = [(generateKey md5Letters ''grind75'' ''z'', lettersEntry ''z'' 10000000 5 10000119),
         (generateKey md5Letters ''grind75'' ''a'', lettersEntry ''a'' 35000000 10 35000120),
         (generateKey md5Letters ''grind75'' ''b'', lettersEntry ''b'' 35000000 20 35000120),
         (?kc, ?ec)]"
    by (simp add: warm_state letters_keys lettersEntry_def)
  obtain dr where dr: "cacheDir warm ''grind75'' = Some dr" using warm_dir by auto
  have stored: "set_cache md5Letters ''grind75'' ''c'' (filler 25000000) None 40 warm
      = Inr (storeEntry ''grind75'' ?kc (lettersEntry ''c'' 25000000 40 0) 25000120
               (generateFingerprint md5Letters (filler 25000000)) 40 warm)"
    using letters_bytes(4)
    by (simp add: set_cache_stores [OF filler_tree] effectiveTtl_def defaultTtl_def lettersEntry_def)
  have call: "memoryCache (perform md5Letters (SetOp ''grind75'' ''c'' (filler 25000000) None 40) warm)
      = memoryCache (memoryInsert ?kc ?ec warm)"
    by (simp add: stored storeEntry_memory(1) [OF dr] lettersEntry_size)
  note bound = eviction_bound [OF warm_def size over refl refl]
  have inside: "currentMemorySize (memoryInsert ?kc ?ec warm) \<le> maxMemorySize"
    using bound by blast
  have rest: "0 \<le> entry_size (lettersEntry ''c'' 25000000 40 25000120)
      \<and> currentMemorySize warm = 80000359
      \<and> maxMemorySize < currentMemorySize warm + entry_size (lettersEntry ''c'' 25000000 40 25000120)
      \<and> sort_key (\<lambda>p. timestamp (snd p))
           (AList.update (generateKey md5Letters ''grind75'' ''c'')
              (lettersEntry ''c'' 25000000 40 25000120) (memoryCache warm))
         = [(generateKey md5Letters ''grind75'' ''z'', lettersEntry ''z'' 10000000 5 10000119),
            (generateKey md5Letters ''grind75'' ''a'', lettersEntry ''a'' 35000000 10 35000120),
            (generateKey md5Letters ''grind75'' ''b'', lettersEntry ''b'' 35000000 20 35000120),
            (generateKey md5Letters ''grind75'' ''c'', lettersEntry ''c'' 25000000 40 25000120)]
      \<and> memoryCache (memoryInsert (generateKey md5Letters ''grind75'' ''c'')
           (lettersEntry ''c'' 25000000 40 25000120) warm)
         = [(generateKey md5Letters ''grind75'' ''b'', lettersEntry ''b'' 35000000 20 35000120),
            (generateKey md5Letters ''grind75'' ''c'', lettersEntry ''c'' 25000000 40 25000120)]
      \<and> currentMemorySize (memoryInsert (generateKey md5Letters ''grind75'' ''c'')
           (lettersEntry ''c'' 25000000 40 25000120) warm) = 60000240
      \<and> memoryCache (perform md5Letters (SetOp ''grind75'' ''c'' (filler 25000000) None 40) warm)
         = [(generateKey md5Letters ''grind75'' ''b'', lettersEntry ''b'' 35000000 20 35000120),
            (generateKey md5Letters ''grind75'' ''c'', lettersEntry ''c'' 25000000 40 25000120)]
      \<and> currentMemorySize (memoryInsert (generateKey md5Letters ''grind75'' ''c'')
           (lettersEntry ''c'' 25000000 40 25000120) warm) \<le> maxMemorySize"
    using size over order call inside by (simp add: warm_state(2) warm_insert)
  show ?thesis by (rule conjI) (rule warm_def, rule rest)
qed

subsection \<open>Round trip\<close>

text \<open>
  Claim C7 says that \<open>set(namespace, identifier, data)\<close> followed at once by
  \<open>get(namespace, identifier)\<close> returns a value deep-equal to \<open>data\<close>, for every
  acyclic payload; a namespace is any string, and \<open>set\<close> is what brings one into being.
  The program does not do that. \<open>set\<close> creates no directory: in a namespace without one
  its \<open>writeFileSync\<close> fails, the \<open>catch\<close> logs \<^verbatim>\<open>Failed to store cache\<close>, and
  nothing is stored in either tier. So for every payload that has a tree, every state
  and every namespace without a directory, \<open>set\<close> returns with the state unchanged,
  and the \<open>get\<close> that follows, at any instant, is a miss when the memory tier did not
  hold the key before. At start only \<^verbatim>\<open>grind75\<close>, \<^verbatim>\<open>leetcode\<close> and \<^verbatim>\<open>companies\<close> have a
  directory.
\<close>

theorem set_without_directory:
  assumes tree: "jsonTree (fst d) {} (snd d) = Inr tree"
    and missing: "cacheDir st ns = None"
    and absent: "map_of (memoryCache st) (generateKey digest ns ident) = None"
  shows "set_cache digest ns ident d ttlOption now st = Inr st
    \<and> get digest ns ident acc now' (projr (set_cache digest ns ident d ttlOption now st)) = (None, st)"
proof -
  have stays: "set_cache digest ns ident d ttlOption now st = Inr st"
    by (simp add: set_cache_stores [OF tree] storeEntry_missing [OF missing])
  have "readEntryFile ns (generateKey digest ns ident) st = None"
    using missing by (simp add: readEntryFile_def)
  then have "getFromFile ns (generateKey digest ns ident) acc now' st = (None, st)"
    by (simp add: getFromFile_absent)
  then have miss: "get digest ns ident acc now' st = (None, st)"
    using get_memory_miss [OF absent, of acc now'] by simp
  show ?thesis unfolding stays by (simp add: miss)
qed


text \<open>
  From the fresh start, \<^verbatim>\<open>set('demo', 'key-a', {value: 42})\<close> leaves the state as it
  was and \<^verbatim>\<open>get('demo', 'key-a')\<close> returns \<open>null\<close>.
\<close>

theorem set_without_directory_witness:
  "jsonTree (fst value42) {} (snd value42) = Inr (JObj [(''value'', JNum 42)])
   \<and> cacheDir freshStart ''demo'' = None
   \<and> map_of (memoryCache freshStart) (generateKey md5Examples ''demo'' ''key-a'') = None
   \<and> set_cache md5Examples ''demo'' ''key-a'' value42 None 1000 freshStart = Inr freshStart
   \<and> fst (get md5Examples ''demo'' ''key-a'' False 1000
        (projr (set_cache md5Examples ''demo'' ''key-a'' value42 None 1000 freshStart))) = None"
proof -
  have missing: "cacheDir freshStart ''demo'' = None"
    by (simp add: freshStart_def newCacheManager_def ensureCacheDirectory_def knownNamespaces_def)
  have absent: "map_of (memoryCache freshStart) (generateKey md5Examples ''demo'' ''key-a'') = None"
    by (simp add: freshStart_def newCacheManager_def)
  note stays = set_without_directory [OF value42_tree missing absent, of None 1000 False 1000]
  have unchanged: "set_cache md5Examples ''demo'' ''key-a'' value42 None 1000 freshStart = Inr freshStart"
    using stays by blast
  have "get md5Examples ''demo'' ''key-a'' False 1000
        (projr (set_cache md5Examples ''demo'' ''key-a'' value42 None 1000 freshStart))
      = (None, freshStart)"
    using stays by blast
  then have miss: "fst (get md5Examples ''demo'' ''key-a'' False 1000
        (projr (set_cache md5Examples ''demo'' ''key-a'' value42 None 1000 freshStart))) = None"
    by simp
  show ?thesis using value42_tree missing absent unchanged miss by blast
qed

subsection \<open>Overwriting a resident key\<close>

text \<open>
  Claim C3 says that an insert under a resident key first subtracts the size of the
  prior entry from the running total. \<open>get\<close> does: it reaches its insert only after
  it has deleted an expired resident entry and subtracted its size. \<open>set\<close> does not:
  it overwrites the entry of the map and only adds. Two calls of \<open>set\<close> for one key,
  each with an entry of 141 bytes, leave one entry of 141 bytes in the memory tier and
  a running total of 282.
\<close>

theorem overwrite_counts_both_sizes:
  "map (\<lambda>p. entry_size (snd p))
      (memoryCache (projr (set_cache md5Examples ''grind75'' ''key-a'' value42 None 2000 afterSet)))
     = [141]
   \<and> currentMemorySize (projr (set_cache md5Examples ''grind75'' ''key-a'' value42 None 2000 afterSet))
     = 282"
proof -
  obtain dr where dr: "cacheDir afterSet ''grind75'' = Some dr"
    using afterSet_state(3) by auto
  show ?thesis
    using storeEntry_no_eviction [OF dr, of 141 keyA
      "\<lparr>data = JObj [(''value'', JNum 42)], timestamp = 2000, ttl = 86400000,
        entry_size = 0, key = keyA\<rparr>"]
    by (simp add: set_cache_stores [OF value42_tree] keyA_key effectiveTtl_def
        defaultTtl_def example_bytes afterSet_state maxMemorySize_def)
qed


subsection \<open>Invalidation of a namespace\<close>

text \<open>
  Claim C2 says that \<open>invalidate(namespace)\<close> removes the entries of the namespace
  from both tiers, so that a following \<open>get\<close> is a miss. The file tier is emptied.
  The loop over the memory tier tests and deletes the first character of each key, not
  the key: after \<open>set\<close> and \<open>invalidate\<close> for \<^verbatim>\<open>grind75\<close> the file and the
  metadata are gone, the key is still in the memory tier with its 141 bytes in the
  running total, and \<open>get\<close> returns the value.
\<close>

theorem namespace_invalidation_keeps_memory:
  "fst (invalidate md5Examples ''grind75'' None afterSet) = None
   \<and> readEntryFile ''grind75'' keyA (snd (invalidate md5Examples ''grind75'' None afterSet)) = None
   \<and> loadMetadata ''grind75'' (snd (invalidate md5Examples ''grind75'' None afterSet)) = []
   \<and> map fst (memoryCache (snd (invalidate md5Examples ''grind75'' None afterSet))) = [keyA]
   \<and> currentMemorySize (snd (invalidate md5Examples ''grind75'' None afterSet)) = 141
   \<and> fst (get md5Examples ''grind75'' ''key-a'' False 1000
        (snd (invalidate md5Examples ''grind75'' None afterSet)))
      = Some (JObj [(''value'', JNum 42)])"
proof -
  let ?st = "afterSet\<lparr>cacheDir := (cacheDir afterSet)(''grind75'' \<mapsto> emptyDirectory)\<rparr>"
  have "\<forall>p\<in>set (memoryCache afterSet). 1 < length (fst p)"
    by (simp add: afterSet_state keyA_def)
  then have inv: "invalidate md5Examples ''grind75'' None afterSet = (None, ?st)"
    using afterSet_state(3) by (simp add: invalidate_namespace_keeps_memory)
  have hit: "fst (get md5Examples ''grind75'' ''key-a'' False 1000 ?st) = Some (JObj [(''value'', JNum 42)])"
    using get_memory_hit [of ?st md5Examples "''grind75''" "''key-a''" _ 1000 False]
    by (simp add: keyA_key afterSet_state isExpired_def)
  show ?thesis
    unfolding inv using hit
    by (simp add: readEntryFile_def loadMetadata_def metadataDocument_def emptyDirectory_def
        afterSet_state)
qed

theorem namespace_invalidation_keeps_memory_witness:
  "fst (get md5Examples ''grind75'' ''key-a'' False 1000
        (snd (invalidate md5Examples ''grind75'' None afterSet))) \<noteq> None"
  using namespace_invalidation_keeps_memory by simp

subsection \<open>Expiration\<close>

text \<open>
  Claim C6. Expiration is the one test \<open>isExpired\<close> on a timestamp and a ttl, the same
  for both tiers: it holds exactly when the instant is after \<open>t0 + d\<close>. For an entry
  with timestamp \<open>t0\<close>, ttl \<open>d\<close> and payload \<open>v\<close> held by the tiers, \<open>get\<close>
  returns \<open>v\<close> at every instant up to \<open>t0 + d\<close> (so at every instant of
  \<open>[t0, t0 + d]\<close>) and, without \<open>acceptExpired\<close>, returns the miss at every instant
  after \<open>t0 + d\<close>.
\<close>

theorem expiration_window:
  assumes held: "holdsEntry st ns (generateKey digest ns ident) t0 d v"
  shows "(isExpired now t0 d \<longleftrightarrow> t0 + d < now)
    \<and> (now \<le> t0 + d \<longrightarrow> fst (get digest ns ident acc now st) = Some v)
    \<and> (t0 + d < now \<longrightarrow> fst (get digest ns ident False now st) = None)"
proof (intro conjI impI)
  show "isExpired now t0 d \<longleftrightarrow> t0 + d < now"
    by (rule isExpired_iff)
next
  assume "now \<le> t0 + d"
  with held show "fst (get digest ns ident acc now st) = Some v"
    by (rule holdsEntry_hit)
next
  assume "t0 + d < now"
  with held show "fst (get digest ns ident False now st) = None"
    by (rule holdsEntry_miss)
qed

theorem expiration_window_witness:
  "holdsEntry afterSetTtl ''grind75'' (generateKey md5Examples ''grind75'' ''key-a'') 5000 1000
     (JObj [(''value'', JNum 42)])
   \<and> fst (get md5Examples ''grind75'' ''key-a'' False 5000 afterSetTtl) = Some (JObj [(''value'', JNum 42)])
   \<and> fst (get md5Examples ''grind75'' ''key-a'' False 6000 afterSetTtl) = Some (JObj [(''value'', JNum 42)])
   \<and> fst (get md5Examples ''grind75'' ''key-a'' False 6001 afterSetTtl) = None"
proof -
  have held: "holdsEntry afterSetTtl ''grind75'' (generateKey md5Examples ''grind75'' ''key-a'')
      5000 1000 (JObj [(''value'', JNum 42)])"
    using set_cache_holds [OF value42_tree freshStart_state(1), of md5Examples "''key-a''" "Some 1000" 5000]
    by (simp add: afterSetTtl_def effectiveTtl_def)
  show ?thesis
    using held expiration_window [OF held, of 5000 False] expiration_window [OF held, of 6000 False]
      expiration_window [OF held, of 6001 False]
    by simp
qed


subsection \<open>An expired file\<close>

text \<open>
  Claim C5 says that a \<open>get\<close> that finds the entry expired in the file tier deletes
  the file and its metadata record. The branch only unlinks the file (its comment reads
  "Expired, remove file"); the record stays in the metadata document until \<open>cleanup\<close>
  or \<open>invalidate\<close> removes it. On a start with one expired entry on disk, the \<open>get\<close>
  is a miss, the file is gone, and the metadata document still holds the record.
\<close>

theorem expired_file_removed_counterexample:
  "fst (get md5Examples ''grind75'' ''key-a'' False 5000 coldStart) = None
   \<and> readEntryFile ''grind75'' keyA (snd (get md5Examples ''grind75'' ''key-a'' False 5000 coldStart))
       = None
   \<and> loadMetadata ''grind75'' (snd (get md5Examples ''grind75'' ''key-a'' False 5000 coldStart))
       = [(keyA, staleRecord)]"
proof -
  have "get md5Examples ''grind75'' ''key-a'' False 5000 coldStart
      = (None, unlinkEntryFile ''grind75'' keyA coldStart)"
    using get_memory_miss [OF coldStart_state(1), of False 5000]
      getFromFile_expired [OF coldStart_state(2) coldStart_state(4)]
    by (simp add: keyA_key)
  then show ?thesis
    by (simp add: unlinkEntryFile_entries coldStart_state)
qed


text \<open>
  C5 as amended: when the memory tier has no entry for the key and the file holds an
  expired entry, \<open>get\<close> without \<open>acceptExpired\<close> returns the miss and deletes the file;
  it leaves the metadata document of the namespace, and so its records, as they were,
  and does not touch the memory tier.
\<close>

theorem expired_file_removed:
  assumes absent: "map_of (memoryCache st) (generateKey digest ns ident) = None"
    and onDisk: "readEntryFile ns (generateKey digest ns ident) st = Some (EntryFile e)"
    and expired: "isExpired now (timestamp e) (ttl e)"
  shows "fst (get digest ns ident False now st) = None
    \<and> readEntryFile ns (generateKey digest ns ident) (snd (get digest ns ident False now st)) = None
    \<and> metadataDocument (snd (get digest ns ident False now st)) ns = metadataDocument st ns
    \<and> loadMetadata ns (snd (get digest ns ident False now st)) = loadMetadata ns st
    \<and> memoryCache (snd (get digest ns ident False now st)) = memoryCache st"
proof -
  have "get digest ns ident False now st
      = (None, unlinkEntryFile ns (generateKey digest ns ident) st)"
    using get_memory_miss [OF absent, of False now] getFromFile_expired [OF onDisk expired]
    by simp
  then show ?thesis by (simp add: unlinkEntryFile_entries)
qed


theorem expired_file_removed_witness:
  "map_of (memoryCache coldStart) (generateKey md5Examples ''grind75'' ''key-a'') = None
   \<and> readEntryFile ''grind75'' (generateKey md5Examples ''grind75'' ''key-a'') coldStart
       = Some (EntryFile staleEntry)
   \<and> isExpired 5000 (timestamp staleEntry) (ttl staleEntry)
   \<and> fst (get md5Examples ''grind75'' ''key-a'' False 5000 coldStart) = None
   \<and> metadataDocument (snd (get md5Examples ''grind75'' ''key-a'' False 5000 coldStart)) ''grind75''
       = Some (MetadataFile [(keyA, staleRecord)])"
  using expired_file_removed [OF coldStart_state(1) coldStart_state(2) coldStart_state(4)]
    coldStart_state
  by (simp add: metadataDocument_def coldStart_def newCacheManager_def ensureCacheDirectory_def
      knownNamespaces_def)


subsection \<open>The ttl of a stored entry\<close>





subsection \<open>The sweep\<close>

text \<open>
  Claim C8. For every known namespace and every metadata mapping (its keys are
  distinct, as the keys of a parsed JSON object are), after \<open>cleanup\<close> the metadata
  document holds exactly the records that are not expired by \<open>isExpired\<close>, the test of
  \<open>get\<close>, in their order and unchanged; the file of every expired record is gone; and
  every record that is not expired keeps its file as it was.
\<close>

theorem cleanup_sweep:
  assumes known: "ns \<in> set knownNamespaces"
    and mapping: "distinct (map fst (loadMetadata ns st))"
  shows "loadMetadata ns (cleanup now st)
      = filter (\<lambda>p. \<not> isExpired now (meta_timestamp (snd p)) (meta_ttl (snd p))) (loadMetadata ns st)
    \<and> (\<forall>k m. (k, m) \<in> set (loadMetadata ns st) \<and> isExpired now (meta_timestamp m) (meta_ttl m)
          \<longrightarrow> readEntryFile ns k (cleanup now st) = None)
    \<and> (\<forall>k m. (k, m) \<in> set (loadMetadata ns st) \<and> \<not> isExpired now (meta_timestamp m) (meta_ttl m)
          \<longrightarrow> readEntryFile ns k (cleanup now st) = readEntryFile ns k st
              \<and> map_of (loadMetadata ns (cleanup now st)) k = Some m)"
proof -
  let ?recs = "loadMetadata ns st"
  have "distinct knownNamespaces" by (simp add: knownNamespaces_def)
  from cleanup_fold(2) [OF this known mapping, of now]
  have meta: "loadMetadata ns (cleanup now st) = filter (\<lambda>p. \<not> expiredRecord now p) ?recs"
    and files: "\<And>k. readEntryFile ns k (cleanup now st)
        = (if k \<in> fst ` set (filter (expiredRecord now) ?recs) then None else readEntryFile ns k st)"
    by (simp_all add: cleanup_def)
  have "loadMetadata ns (cleanup now st)
      = filter (\<lambda>p. \<not> isExpired now (meta_timestamp (snd p)) (meta_ttl (snd p))) ?recs"
    using meta by (simp add: expiredRecord_def)
  moreover have "readEntryFile ns k (cleanup now st) = None"
    if "(k, m) \<in> set ?recs" "isExpired now (meta_timestamp m) (meta_ttl m)" for k m
  proof -
    have "(k, m) \<in> set (filter (expiredRecord now) ?recs)"
      using that by (simp add: expiredRecord_def)
    then have "k \<in> fst ` set (filter (expiredRecord now) ?recs)" by force
    then show ?thesis by (simp add: files)
  qed
  moreover have "readEntryFile ns k (cleanup now st) = readEntryFile ns k st
      \<and> map_of (loadMetadata ns (cleanup now st)) k = Some m"
    if rec: "(k, m) \<in> set ?recs" and valid: "\<not> isExpired now (meta_timestamp m) (meta_ttl m)" for k m
  proof -
    have only: "m' = m" if "(k, m') \<in> set ?recs" for m'
      using mapping rec that by (meson eq_key_imp_eq_value)
    have "k \<notin> fst ` set (filter (expiredRecord now) ?recs)"
      using only valid by (auto simp add: expiredRecord_def)
    then have "readEntryFile ns k (cleanup now st) = readEntryFile ns k st"
      by (simp add: files)
    moreover have "map_of (filter (\<lambda>p. \<not> expiredRecord now p) ?recs) k = Some m"
    proof (rule map_of_is_SomeI)
      show "distinct (map fst (filter (\<lambda>p. \<not> expiredRecord now p) ?recs))"
        using mapping by (rule distinct_map_filter)
      show "(k, m) \<in> set (filter (\<lambda>p. \<not> expiredRecord now p) ?recs)"
        using rec valid by (simp add: expiredRecord_def)
    qed
    ultimately show ?thesis by (simp add: meta)
  qed
  ultimately show ?thesis by blast
qed

theorem cleanup_sweep_witness:
  "''grind75'' \<in> set knownNamespaces
   \<and> distinct (map fst (loadMetadata ''grind75'' sweepStart))
   \<and> loadMetadata ''grind75'' (cleanup 5000 sweepStart) = [(keyA, recordAt keyA 4000 86400000)]
   \<and> readEntryFile ''grind75'' keyB (cleanup 5000 sweepStart) = None
   \<and> readEntryFile ''grind75'' keyC (cleanup 5000 sweepStart) = None
   \<and> readEntryFile ''grind75'' keyA (cleanup 5000 sweepStart)
       = Some (EntryFile (entryAt keyA 4000 86400000))"
proof -
  have known: "''grind75'' \<in> set knownNamespaces" by (simp add: knownNamespaces_def)
  have mapping: "distinct (map fst (loadMetadata ''grind75'' sweepStart))"
    using example_keys by (auto simp add: sweepStart_state)
  note sweep = cleanup_sweep [OF known mapping, of 5000]
  have meta: "loadMetadata ''grind75'' (cleanup 5000 sweepStart) = [(keyA, recordAt keyA 4000 86400000)]"
    using sweep by (simp add: sweepStart_state recordAt_def isExpired_def)
  have goneB: "readEntryFile ''grind75'' keyB (cleanup 5000 sweepStart) = None"
    using sweep [THEN conjunct2, THEN conjunct1, rule_format, of keyB "recordAt keyB 3000 1000"]
    by (simp add: sweepStart_state recordAt_def isExpired_def)
  have goneC: "readEntryFile ''grind75'' keyC (cleanup 5000 sweepStart) = None"
    using sweep [THEN conjunct2, THEN conjunct1, rule_format, of keyC "recordAt keyC 1000 2000"]
    by (simp add: sweepStart_state recordAt_def isExpired_def)
  have keptA: "readEntryFile ''grind75'' keyA (cleanup 5000 sweepStart)
       = Some (EntryFile (entryAt keyA 4000 86400000))"
    using sweep [THEN conjunct2, THEN conjunct2, rule_format, of keyA "recordAt keyA 4000 86400000"]
    by (simp add: sweepStart_state recordAt_def isExpired_def)
  show ?thesis using known mapping meta goneB goneC keptA by simp
qed


subsection \<open>A metadata document that is missing or does not parse\<close>

text \<open>
  Claim C9. When the metadata document of a namespace is missing or does not parse,
  \<open>loadMetadata\<close> returns the empty mapping, and the operations go on as with no
  records: \<open>get\<close> finds no record to update and leaves the document as it is; \<open>set\<close>
  (for a payload with a tree, in a namespace with a directory) writes a document with
  the one new record; the status of the namespace is all zeros with no oldest and no
  newest entry; and the sweep of the namespace changes nothing. What \<open>get\<close> returns,
  what \<open>set\<close> does and what the status reports are the same as in the state in which
  the document of the namespace holds the empty mapping.
\<close>

theorem missing_metadata_is_empty:
  assumes broken: "metadataDocument st ns = None \<or> metadataDocument st ns = Some CorruptMetadataFile"
  shows "loadMetadata ns st = []
    \<and> metadataDocument (snd (get digest ns ident acc now st)) ns = metadataDocument st ns
    \<and> (\<forall>tree. jsonTree (fst d) {} (snd d) = Inr tree \<and> cacheDir st ns \<noteq> None \<longrightarrow>
          loadMetadata ns (projr (set_cache digest ns ident d ttlOption now st))
            = [(generateKey digest ns ident,
                \<lparr>meta_key = generateKey digest ns ident, meta_timestamp = now,
                 meta_ttl = effectiveTtl ttlOption,
                 meta_size = byteLength (entryContent
                    \<lparr>data = tree, timestamp = now, ttl = effectiveTtl ttlOption, entry_size = 0,
                     key = generateKey digest ns ident\<rparr>),
                 fingerprint = generateFingerprint digest d, accessed = now\<rparr>)])
    \<and> (ns \<noteq> [] \<longrightarrow> fileCache (getCacheStatus (Some ns) now st)
          = [(ns, \<lparr>totalEntries = 0, validEntries = 0, totalSize = 0,
                   oldestEntry = None, newestEntry = None\<rparr>)])
    \<and> cleanupNamespace now ns st = st
    \<and> fst (get digest ns ident acc now (saveMetadata ns [] st)) = fst (get digest ns ident acc now st)
    \<and> set_cache digest ns ident d ttlOption now (saveMetadata ns [] st)
        = set_cache digest ns ident d ttlOption now st
    \<and> getCacheStatus nsOption now (saveMetadata ns [] st) = getCacheStatus nsOption now st"
proof -
  have empty: "loadMetadata ns st = []"
    using broken by (auto simp add: loadMetadata_def)
  have sameGet: "fst (get digest ns ident acc now (saveMetadata ns [] st))
      = fst (get digest ns ident acc now st)"
    by (rule get_result) simp_all
  have sameSet: "set_cache digest ns ident d ttlOption now (saveMetadata ns [] st)
      = set_cache digest ns ident d ttlOption now st"
    by (simp add: set_cache_def Let_def storeEntry_empty_document [OF empty] split: sum.splits)
  have sameStatus: "getCacheStatus nsOption now (saveMetadata ns [] st)
      = getCacheStatus nsOption now st"
    using empty by (rule status_empty_document)
  have getPart: "metadataDocument (snd (get digest ns ident acc now st)) ns = metadataDocument st ns"
    using empty by (rule get_no_records)
  have setPart: "loadMetadata ns (projr (set_cache digest ns ident d ttlOption now st))
            = [(generateKey digest ns ident,
                \<lparr>meta_key = generateKey digest ns ident, meta_timestamp = now,
                 meta_ttl = effectiveTtl ttlOption,
                 meta_size = byteLength (entryContent
                    \<lparr>data = tree, timestamp = now, ttl = effectiveTtl ttlOption, entry_size = 0,
                     key = generateKey digest ns ident\<rparr>),
                 fingerprint = generateFingerprint digest d, accessed = now\<rparr>)]"
    if tree: "jsonTree (fst d) {} (snd d) = Inr tree" and dir: "cacheDir st ns \<noteq> None" for tree
  proof -
    obtain dr where dr: "cacheDir st ns = Some dr" using dir by auto
    show ?thesis
      by (simp add: set_cache_stores [OF tree] storeEntry_disk(2) [OF dr] empty)
  qed
  have statusPart: "fileCache (getCacheStatus (Some ns) now st)
          = [(ns, \<lparr>totalEntries = 0, validEntries = 0, totalSize = 0,
                   oldestEntry = None, newestEntry = None\<rparr>)]" if "ns \<noteq> []"
    using that by (simp add: getCacheStatus_def namespaceStatus_def empty)
  have cleanupPart: "cleanupNamespace now ns st = st"
    by (simp add: cleanupNamespace_def empty)
  show ?thesis
    using empty getPart setPart statusPart cleanupPart sameGet sameSet sameStatus by blast
qed


theorem missing_metadata_is_empty_witness:
  "metadataDocument corruptStart ''grind75'' = Some CorruptMetadataFile
   \<and> loadMetadata ''grind75'' corruptStart = []
   \<and> fileCache (getCacheStatus (Some ''grind75'') 1000 corruptStart)
       = [(''grind75'', \<lparr>totalEntries = 0, validEntries = 0, totalSize = 0,
                          oldestEntry = None, newestEntry = None\<rparr>)]
   \<and> cleanupNamespace 1000 ''grind75'' corruptStart = corruptStart
   \<and> map fst (loadMetadata ''grind75''
        (projr (set_cache md5Examples ''grind75'' ''key-a'' value42 None 1000 corruptStart)))
       = [keyA]"
proof -
  have doc: "metadataDocument corruptStart ''grind75'' = Some CorruptMetadataFile"
    by (simp add: corruptStart_def newCacheManager_def ensureCacheDirectory_def
        knownNamespaces_def metadataDocument_def)
  have dir: "cacheDir corruptStart ''grind75'' \<noteq> None"
    by (simp add: corruptStart_def newCacheManager_def ensureCacheDirectory_def
        knownNamespaces_def)
  from missing_metadata_is_empty [of corruptStart "''grind75''" md5Examples "''key-a''" False 1000
      value42 None] doc dir value42_tree
  show ?thesis by (simp add: keyA_key)
qed

end
